theory Spec2Isabelle
  imports Complex_Main "HOL-Library.Log_Nat"
begin

section \<open>JavaScript values\<close>

text \<open>
  The library is TypeScript; at run time its numbers are IEEE-754 doubles (binary64). A
  number is modelled as a finite value or one of the three special values; a finite value
  is the real number the double stands for, and the two zeros are one value. Everything
  the code distinguishes by \<^verbatim>\<open>isNaN\<close>, \<^verbatim>\<open>===\<close>, \<^verbatim>\<open>||\<close> and \<^verbatim>\<open>??\<close> is kept. An
  array is the list of its slots, in index order: a slot holds a value, or it is a hole
  of a sparse array (\<open>None\<close>), as in \<^verbatim>\<open>[1, , 3]\<close> or \<^verbatim>\<open>new Array(3)\<close>. The length
  of the array counts the holes.
\<close>

datatype jsnum = Fin real | PosInf | NegInf | NaN

datatype jsval =
    JUndefined
  | JNull
  | JBool bool
  | JNumber jsnum
  | JString string
  | JArray "jsval option list"
  | JObject

type_synonym js_array = "jsval option list"

text \<open>The array with the given elements and no hole.\<close>

definition dense :: "jsval list \<Rightarrow> js_array" where
  "dense xs = map Some xs"

text \<open>
  \<^verbatim>\<open>Array.prototype.every\<close> calls the predicate for the slots that hold a value, in
  index order, and skips the holes.
\<close>

definition js_every :: "(jsval \<Rightarrow> bool) \<Rightarrow> js_array \<Rightarrow> bool" where
  "js_every p xs = list_all (\<lambda>slot. case slot of None \<Rightarrow> True | Some v \<Rightarrow> p v) xs"

text \<open>Reading \<^verbatim>\<open>xs[i]\<close>: a hole and an index past the end read \<^verbatim>\<open>undefined\<close>.\<close>

definition js_index :: "js_array \<Rightarrow> nat \<Rightarrow> jsval" where
  "js_index xs i = (if i < length xs then (case xs ! i of None \<Rightarrow> JUndefined | Some v \<Rightarrow> v) else JUndefined)"

fun js_isNaN :: "jsnum \<Rightarrow> bool" where
  "js_isNaN NaN = True"
| "js_isNaN _ = False"

text \<open>Strict equality \<^verbatim>\<open>===\<close> on numbers: NaN equals nothing, itself included.\<close>

fun js_strict_eq :: "jsnum \<Rightarrow> jsnum \<Rightarrow> bool" where
  "js_strict_eq NaN _ = False"
| "js_strict_eq _ NaN = False"
| "js_strict_eq a b = (a = b)"

text \<open>
  Rounding to binary64. \<open>half_even\<close> rounds a real to the nearest integer, a tie going to
  the even one. \<open>binade x\<close> is the exponent \<open>e\<close> of a positive \<open>x\<close>, with
  \<open>2 powi e \<le> x < 2 powi (e + 1)\<close>. The doubles of a binade are the multiples of its
  unit in the last place: 53 significant bits, and below \<open>2 powi - 1022\<close> the subnormal
  doubles, which are the multiples of \<open>2 powi - 1074\<close>. \<open>round64 x\<close> is the double nearest
  to \<open>x\<close>, ties to even, and an infinity when the nearest multiple is \<open>2 powi 1024\<close> or
  beyond. A real is a double when rounding leaves it as it is.
\<close>

definition half_even :: "real \<Rightarrow> int" where
  "half_even q =
     (let n = \<lfloor>q\<rfloor>; d = q - of_int n
      in if d < 1 / 2 then n else if 1 / 2 < d then n + 1 else if even n then n else n + 1)"

definition binade :: "real \<Rightarrow> int" where
  "binade x = (if 1 \<le> x then bitlen \<lfloor>x\<rfloor> - 1 else - bitlen (\<lceil>1 / x\<rceil> - 1))"

definition ulp :: "real \<Rightarrow> real" where
  "ulp x = 2 powi (max (binade \<bar>x\<bar>) (- 1022) - 52)"

definition huge :: real where
  "huge = 2 powi 1024"

definition round64 :: "real \<Rightarrow> jsnum" where
  "round64 x =
     (if x = 0 then Fin 0
      else let r = of_int (half_even (x / ulp x)) * ulp x
           in if huge \<le> r then PosInf
              else if r \<le> - huge then NegInf
              else Fin r)"

definition is_double :: "real \<Rightarrow> bool" where
  "is_double x = (round64 x = Fin x)"

text \<open>
  The nearest multiple of the unit in the last place, the reals that are multiples of the
  smallest subnormal double, and the double that the literal \<^verbatim>\<open>0.01\<close> denotes.
\<close>

definition rounded :: "real \<Rightarrow> real" where
  "rounded x = of_int (half_even (x / ulp x)) * ulp x"

definition on_grid :: "real \<Rightarrow> bool" where
  "on_grid x = (\<exists>k :: int. x = of_int k * 2 powi (- 1074))"

definition cent :: real where
  "cent = 5764607523034235 / 2 ^ 59"

text \<open>Addition: the exact sum of two finite values, rounded.\<close>

fun js_add :: "jsnum \<Rightarrow> jsnum \<Rightarrow> jsnum" where
  "js_add NaN _ = NaN"
| "js_add _ NaN = NaN"
| "js_add (Fin a) (Fin b) = round64 (a + b)"
| "js_add PosInf NegInf = NaN"
| "js_add NegInf PosInf = NaN"
| "js_add PosInf _ = PosInf"
| "js_add _ PosInf = PosInf"
| "js_add NegInf _ = NegInf"
| "js_add _ NegInf = NegInf"

fun js_neg :: "jsnum \<Rightarrow> jsnum" where
  "js_neg (Fin a) = Fin (- a)"
| "js_neg PosInf = NegInf"
| "js_neg NegInf = PosInf"
| "js_neg NaN = NaN"

definition js_sub :: "jsnum \<Rightarrow> jsnum \<Rightarrow> jsnum" where
  "js_sub a b = js_add a (js_neg b)"

fun js_abs :: "jsnum \<Rightarrow> jsnum" where
  "js_abs (Fin a) = Fin \<bar>a\<bar>"
| "js_abs PosInf = PosInf"
| "js_abs NegInf = PosInf"
| "js_abs NaN = NaN"

text \<open>The comparison \<^verbatim>\<open>>\<close>: false as soon as one side is NaN.\<close>

fun js_gt :: "jsnum \<Rightarrow> jsnum \<Rightarrow> bool" where
  "js_gt NaN _ = False"
| "js_gt _ NaN = False"
| "js_gt (Fin a) (Fin b) = (a > b)"
| "js_gt PosInf PosInf = False"
| "js_gt PosInf _ = True"
| "js_gt NegInf _ = False"
| "js_gt (Fin a) NegInf = True"
| "js_gt (Fin a) PosInf = False"

text \<open>
  Division: the exact quotient of two finite values, rounded. A finite value divided by
  zero gives an infinity of the dividend's sign (the zero is read as +0) and 0/0 is NaN.
\<close>

fun js_div :: "jsnum \<Rightarrow> jsnum \<Rightarrow> jsnum" where
  "js_div NaN _ = NaN"
| "js_div _ NaN = NaN"
| "js_div (Fin a) (Fin b) =
     (if b \<noteq> 0 then round64 (a / b)
      else if a > 0 then PosInf else if a < 0 then NegInf else NaN)"
| "js_div (Fin a) PosInf = Fin 0"
| "js_div (Fin a) NegInf = Fin 0"
| "js_div PosInf (Fin b) = (if b < 0 then NegInf else PosInf)"
| "js_div NegInf (Fin b) = (if b < 0 then PosInf else NegInf)"
| "js_div PosInf PosInf = NaN"
| "js_div PosInf NegInf = NaN"
| "js_div NegInf PosInf = NaN"
| "js_div NegInf NegInf = NaN"

text \<open>
  An optional numeric field of an options object is \<open>None\<close> when it is
  \<^verbatim>\<open>undefined\<close> (or null). \<^verbatim>\<open>x || d\<close> takes the default for every falsy
  \<open>x\<close>: undefined, 0 and NaN. \<^verbatim>\<open>x ?? d\<close> takes it only for undefined.
\<close>

fun js_truthy_num :: "jsnum option \<Rightarrow> bool" where
  "js_truthy_num None = False"
| "js_truthy_num (Some (Fin a)) = (a \<noteq> 0)"
| "js_truthy_num (Some NaN) = False"
| "js_truthy_num (Some _) = True"

definition js_or_default :: "jsnum option \<Rightarrow> jsnum \<Rightarrow> jsnum" where
  "js_or_default x d = (if js_truthy_num x then the x else d)"

fun js_nullish_default :: "jsnum option \<Rightarrow> jsnum \<Rightarrow> jsnum" where
  "js_nullish_default None d = d"
| "js_nullish_default (Some a) d = a"

fun js_typeof :: "jsval \<Rightarrow> string" where
  "js_typeof JUndefined = ''undefined''"
| "js_typeof JNull = ''object''"
| "js_typeof (JBool _) = ''boolean''"
| "js_typeof (JNumber _) = ''number''"
| "js_typeof (JString _) = ''string''"
| "js_typeof (JArray _) = ''object''"
| "js_typeof JObject = ''object''"

fun js_isArray :: "jsval \<Rightarrow> bool" where
  "js_isArray (JArray _) = True"
| "js_isArray _ = False"

section \<open>Errors\<close>

text \<open>
  A message is kept as the parts of its template string: the literal text and the
  interpolated numbers (number formatting is not modelled). In the managers the dollar
  sign of every placeholder is escaped (\<^verbatim>\<open>\${error.message}\<close>), so nothing is
  interpolated there and the message is the text as written, placeholder included; the
  validator's template is not escaped. The three error classes of
  \<^verbatim>\<open>types/index.ts\<close> carry a message and an optional second field (\<^verbatim>\<open>code\<close> or
  \<^verbatim>\<open>field\<close>); \<open>OtherError\<close> is any other \<^verbatim>\<open>Error\<close> instance and \<open>NonError\<close> a
  thrown value that is not an \<^verbatim>\<open>Error\<close>.
\<close>

datatype msg_part = Txt string | Num jsnum

type_synonym message = "msg_part list"

datatype js_error =
    EmbeddingError message "string option"
  | SearchError message "string option"
  | ValidationError message "string option"
  | OtherError message
  | NonError

fun is_ValidationError :: "js_error \<Rightarrow> bool" where
  "is_ValidationError (ValidationError _ _) = True"
| "is_ValidationError _ = False"

fun is_SearchError :: "js_error \<Rightarrow> bool" where
  "is_SearchError (SearchError _ _) = True"
| "is_SearchError _ = False"

fun embedding_error_code :: "js_error + 'a \<Rightarrow> string option" where
  "embedding_error_code (Inl (EmbeddingError _ c)) = c"
| "embedding_error_code _ = None"

section \<open>The dimension validator\<close>

text \<open>
  \<^verbatim>\<open>validateEmbeddingDimensions\<close> of \<^verbatim>\<open>src/embeddings/index.ts\<close>: three checks in
  order, each throwing an \<^verbatim>\<open>EmbeddingError\<close> with its own code; \<open>Inr ()\<close> is the
  normal return. The third check is \<^verbatim>\<open>embedding.every(...)\<close>, which does not look at
  the holes of a sparse array.
\<close>

definition valid_component :: "jsval \<Rightarrow> bool" where
  "valid_component val =
     (js_typeof val = ''number'' \<and> (case val of JNumber x \<Rightarrow> \<not> js_isNaN x | _ \<Rightarrow> False))"

fun validateEmbeddingDimensions :: "jsval \<Rightarrow> jsnum \<Rightarrow> js_error + unit" where
  "validateEmbeddingDimensions (JArray xs) expectedDimensions =
     (if \<not> js_strict_eq (Fin (real (length xs))) expectedDimensions
      then Inl (EmbeddingError
             [Txt ''Expected '', Num expectedDimensions, Txt '' dimensions but got '',
              Num (Fin (real (length xs)))]
             (Some ''DIMENSION_MISMATCH''))
      else if \<not> js_every valid_component xs
      then Inl (EmbeddingError [Txt ''Embedding must contain only valid numbers'']
             (Some ''INVALID_EMBEDDING_VALUES''))
      else Inr ())"
| "validateEmbeddingDimensions embedding expectedDimensions =
     Inl (EmbeddingError [Txt ''Embedding must be an array''] (Some ''INVALID_EMBEDDING_TYPE''))"

section \<open>The retry executor\<close>

text \<open>
  \<^verbatim>\<open>withRetry\<close> of \<^verbatim>\<open>src/utils/retry.ts\<close>. The asynchronous operation is given by
  the outcome of each of its invocations: \<open>operation k\<close> is what the invocation made at
  attempt \<open>k\<close> settles to, \<open>Inl\<close> a rejection and \<open>Inr\<close> a value. Attempts are strictly
  sequential, so the invocation at attempt \<open>k\<close> is the \<open>k\<close>-th one. The callback
  \<^verbatim>\<open>onRetry\<close> is a JavaScript function and may throw: it returns \<open>Some e\<close> when it
  throws \<open>e\<close> (as the callback built by \<^verbatim>\<open>withConditionalRetry\<close> does) and \<open>None\<close>
  when it returns. What the executor does is recorded as a list of events, in order.
  The budget \<^verbatim>\<open>maxRetries\<close> is an integer and the delays are reals.
\<close>

record retry_options =
  maxRetries :: "int option"
  initialDelayMs :: "real option"
  exponentialBackoff :: "bool option"
  maxDelayMs :: "real option"
  onRetry :: "(nat \<Rightarrow> js_error \<Rightarrow> js_error option) option"

datatype retry_event = Attempt nat | OnRetry nat js_error | Sleep real

fun is_Attempt :: "retry_event \<Rightarrow> bool" where
  "is_Attempt (Attempt _) = True"
| "is_Attempt _ = False"

fun is_OnRetry :: "retry_event \<Rightarrow> bool" where
  "is_OnRetry (OnRetry _ _) = True"
| "is_OnRetry _ = False"

text \<open>The destructuring defaults: a field left \<^verbatim>\<open>undefined\<close> takes its default.\<close>

definition opt_maxRetries :: "retry_options \<Rightarrow> int" where
  "opt_maxRetries options = (case maxRetries options of None \<Rightarrow> 3 | Some m \<Rightarrow> m)"

definition opt_initialDelayMs :: "retry_options \<Rightarrow> real" where
  "opt_initialDelayMs options = (case initialDelayMs options of None \<Rightarrow> 1000 | Some d \<Rightarrow> d)"

definition opt_exponentialBackoff :: "retry_options \<Rightarrow> bool" where
  "opt_exponentialBackoff options = (case exponentialBackoff options of None \<Rightarrow> True | Some b \<Rightarrow> b)"

definition opt_maxDelayMs :: "retry_options \<Rightarrow> real" where
  "opt_maxDelayMs options = (case maxDelayMs options of None \<Rightarrow> 10000 | Some d \<Rightarrow> d)"

definition retry_delay :: "retry_options \<Rightarrow> nat \<Rightarrow> real" where
  "retry_delay options attempt =
     (if opt_exponentialBackoff options
      then min (opt_initialDelayMs options * 2 ^ attempt) (opt_maxDelayMs options)
      else opt_initialDelayMs options)"

text \<open>
  The \<^verbatim>\<open>for\<close> loop, from \<open>attempt\<close> on. \<open>lastError\<close> is \<open>None\<close> while the variable
  is unassigned. A failure at the last attempt breaks out of the loop to the final
  \<^verbatim>\<open>throw lastError\<close>, which then throws the error just caught; the loop ends without
  a break only when \<open>maxRetries\<close> is negative, and then the unassigned variable is
  thrown (\<open>NonError\<close>). An exception of the callback leaves the \<^verbatim>\<open>catch\<close> block and
  the function.
\<close>

function withRetry_loop ::
  "(nat \<Rightarrow> js_error + 'a) \<Rightarrow> retry_options \<Rightarrow> nat \<Rightarrow> js_error option
     \<Rightarrow> (js_error + 'a) \<times> retry_event list"
where
  "withRetry_loop operation options attempt lastError =
     (if int attempt \<le> opt_maxRetries options then
        (case operation attempt of
           Inr v \<Rightarrow> (Inr v, [Attempt attempt])
         | Inl error \<Rightarrow>
             if int attempt = opt_maxRetries options then (Inl error, [Attempt attempt])
             else
               (case onRetry options of
                  None \<Rightarrow>
                    apsnd (\<lambda>ev. Attempt attempt # Sleep (retry_delay options attempt) # ev)
                      (withRetry_loop operation options (attempt + 1) (Some error))
                | Some callback \<Rightarrow>
                    (case callback (attempt + 1) error of
                       Some thrown \<Rightarrow> (Inl thrown, [Attempt attempt, OnRetry (attempt + 1) error])
                     | None \<Rightarrow>
                         apsnd (\<lambda>ev. Attempt attempt # OnRetry (attempt + 1) error
                                         # Sleep (retry_delay options attempt) # ev)
                           (withRetry_loop operation options (attempt + 1) (Some error)))))
      else (case lastError of None \<Rightarrow> (Inl NonError, []) | Some e \<Rightarrow> (Inl e, [])))"
  by pat_completeness auto
termination
  by (relation "measure (\<lambda>(operation, options, attempt, lastError).
        nat (opt_maxRetries options + 1 - int attempt))") auto

definition withRetry ::
  "(nat \<Rightarrow> js_error + 'a) \<Rightarrow> retry_options \<Rightarrow> (js_error + 'a) \<times> retry_event list"
where
  "withRetry operation options = withRetry_loop operation options 0 None"

text \<open>The events of one unsuccessful attempt that is followed by another one.\<close>

definition retry_round :: "retry_options \<Rightarrow> (nat \<Rightarrow> js_error) \<Rightarrow> nat \<Rightarrow> retry_event list" where
  "retry_round options errs k =
     (case onRetry options of
        None \<Rightarrow> [Attempt k, Sleep (retry_delay options k)]
      | Some callback \<Rightarrow> [Attempt k, OnRetry (k + 1) (errs k), Sleep (retry_delay options k)])"

text \<open>The callback, when there is one, returns normally at each of the first \<open>m\<close> failures.\<close>

definition callback_returns :: "retry_options \<Rightarrow> (nat \<Rightarrow> js_error) \<Rightarrow> nat \<Rightarrow> bool" where
  "callback_returns options errs m =
     (case onRetry options of
        None \<Rightarrow> True
      | Some callback \<Rightarrow> list_all (\<lambda>k. callback (k + 1) (errs k) = None) [0..<m])"

text \<open>
  The callback that \<^verbatim>\<open>withConditionalRetry\<close> of the same file hands to
  \<^verbatim>\<open>withRetry\<close> when its caller gives none: it throws the error back when the error is
  not retryable. The predicate \<^verbatim>\<open>isRetryableError\<close> is a parameter here; the one of
  the file looks for nine substrings in the message, none of which is in the message
  \<^verbatim>\<open>bad request\<close>.
\<close>

definition conditional_callback :: "(js_error \<Rightarrow> bool) \<Rightarrow> nat \<Rightarrow> js_error \<Rightarrow> js_error option" where
  "conditional_callback isRetryableError attempt error =
     (if \<not> isRetryableError error then Some error else None)"

section \<open>The search manager\<close>

text \<open>
  \<^verbatim>\<open>SearchManager\<close> (\<^verbatim>\<open>src/search/manager.ts\<close>). An options object is a record whose
  optional fields are \<open>None\<close> when absent; a query embedding is an array. The Supabase client is given by what each of its \<^verbatim>\<open>rpc\<close> calls settles
  to: \<open>client k call\<close> is the outcome of the \<open>k\<close>-th call made by this search. The rows
  are not inspected by the manager and stay a type parameter.
\<close>

type_synonym json_object = "(string \<times> jsval) list"

record search_options =
  queryEmbedding :: "js_array option"
  matchThreshold :: "jsnum option"
  matchCount :: "jsnum option"
  filterMetadata :: "json_object option"

record weighted_search_options = search_options +
  querySection1 :: "js_array option"
  querySection2 :: "js_array option"
  querySection3 :: "js_array option"
  weightMain :: "jsnum option"
  weightSection1 :: "jsnum option"
  weightSection2 :: "jsnum option"
  weightSection3 :: "jsnum option"

record match_documents_params =
  query_embedding :: js_array
  match_threshold :: jsnum
  match_count :: jsnum
  filter_metadata :: "json_object option"

record match_documents_weighted_params = match_documents_params +
  query_section_1 :: "js_array option"
  query_section_2 :: "js_array option"
  query_section_3 :: "js_array option"
  weight_main :: jsnum
  weight_section_1 :: jsnum
  weight_section_2 :: jsnum
  weight_section_3 :: jsnum

datatype rpc_call =
    Rpc_match_documents match_documents_params
  | Rpc_match_documents_weighted match_documents_weighted_params

datatype backend_error = BackendError message "string option"

text \<open>
  A call settles to \<^verbatim>\<open>{ data, error }\<close>, or rejects with a thrown value.
\<close>

datatype 'r rpc_outcome =
    Settled "'r list option" "backend_error option"
  | Rejected js_error

record 'r search_run =
  result :: "js_error + 'r list"
  rpc_calls :: "rpc_call list"
  retry_events :: "retry_event list"
  info_logs :: "message list"

text \<open>
  The body of the retried operation after the call:
  \<^verbatim>\<open>if (error) throw new SearchError(failed, error.code); return data || []\<close>, where
  \<open>failed\<close> is the text of the method's template.
\<close>

fun rpc_result :: "string \<Rightarrow> 'r rpc_outcome \<Rightarrow> js_error + 'r list" where
  "rpc_result failed (Settled data (Some (BackendError m code))) = Inl (SearchError [Txt failed] code)"
| "rpc_result failed (Settled None None) = Inr []"
| "rpc_result failed (Settled (Some rows) None) = Inr rows"
| "rpc_result failed (Rejected e) = Inl e"

text \<open>
  The \<^verbatim>\<open>catch\<close> block of both methods: a \<^verbatim>\<open>ValidationError\<close> or a
  \<^verbatim>\<open>SearchError\<close> is thrown on as it is, anything else is replaced by a new
  \<^verbatim>\<open>SearchError\<close> without code, whose message is the text \<open>unexpected\<close> of the
  method's template.
\<close>

definition rethrow :: "string \<Rightarrow> js_error \<Rightarrow> js_error" where
  "rethrow unexpected error =
     (if is_ValidationError error \<or> is_SearchError error then error
      else SearchError [Txt unexpected] None)"

definition search_failed :: string where
  "search_failed = ''Search failed: ${error.message}''"

definition search_unexpected :: string where
  "search_unexpected =
     ''Unexpected error during search: ${error instanceof Error ? error.message : 'Unknown error'}''"

definition weighted_failed :: string where
  "weighted_failed = ''Weighted search failed: ${error.message}''"

definition weighted_unexpected :: string where
  "weighted_unexpected =
     ''Unexpected error during weighted search: ${error instanceof Error ? error.message : 'Unknown error'}''"

definition weights_normalized :: string where
  "weights_normalized =
     ''Weights normalized: [${providedWeightMain.toFixed(2)}, ${providedWeightSection1.toFixed(2)}, ${providedWeightSection2.toFixed(2)}, ${providedWeightSection3.toFixed(2)}] -> [${normalizedWeightMain.toFixed(2)}, ${normalizedWeightSection1.toFixed(2)}, ${normalizedWeightSection2.toFixed(2)}, ${normalizedWeightSection3.toFixed(2)}]''"

text \<open>
  The retry options of both methods. The callback logs a warning; the logger is not part
  of these sources and is taken to return normally.
\<close>

definition logger_warn :: "nat \<Rightarrow> js_error \<Rightarrow> js_error option" where
  "logger_warn attempt error = None"

definition manager_retry_options :: retry_options where
  "manager_retry_options =
     \<lparr>maxRetries = Some 3, initialDelayMs = None, exponentialBackoff = None,
      maxDelayMs = None, onRetry = Some logger_warn\<rparr>"

definition query_required :: js_error where
  "query_required = ValidationError [Txt ''Query embedding is required''] (Some ''queryEmbedding'')"

definition validate_if_present :: "js_array option \<Rightarrow> jsnum \<Rightarrow> js_error + unit" where
  "validate_if_present q expectedDimensions =
     (case q of None \<Rightarrow> Inr () | Some xs \<Rightarrow> validateEmbeddingDimensions (JArray xs) expectedDimensions)"

text \<open>The checks of \<^verbatim>\<open>search\<close> that come before the retried call.\<close>

definition search_validate :: "'a search_options_scheme \<Rightarrow> jsnum option \<Rightarrow> js_error + unit" where
  "search_validate options expectedDimensions =
     (case queryEmbedding options of
        None \<Rightarrow> Inl query_required
      | Some q \<Rightarrow>
          if length q = 0 then Inl query_required
          else if js_truthy_num expectedDimensions
          then validateEmbeddingDimensions (JArray q) (the expectedDimensions)
          else Inr ())"

definition search_params :: "'a search_options_scheme \<Rightarrow> match_documents_params" where
  "search_params options =
     \<lparr>query_embedding = the (queryEmbedding options),
      match_threshold = js_or_default (matchThreshold options) (Fin 0.5),
      match_count = js_or_default (matchCount options) (Fin 10),
      filter_metadata = filterMetadata options\<rparr>"

definition retried_rpc ::
  "(nat \<Rightarrow> rpc_call \<Rightarrow> 'r rpc_outcome) \<Rightarrow> string \<Rightarrow> string \<Rightarrow> rpc_call
     \<Rightarrow> message list \<Rightarrow> 'r search_run" where
  "retried_rpc client failed unexpected call logs =
     (case withRetry (\<lambda>k. rpc_result failed (client k call)) manager_retry_options of
        (r, ev) \<Rightarrow>
          \<lparr>result = (case r of Inl e \<Rightarrow> Inl (rethrow unexpected e) | Inr rows \<Rightarrow> Inr rows),
           rpc_calls = map (\<lambda>e. call) (filter is_Attempt ev),
           retry_events = ev,
           info_logs = logs\<rparr>)"

definition search ::
  "(nat \<Rightarrow> rpc_call \<Rightarrow> 'r rpc_outcome) \<Rightarrow> 'a search_options_scheme \<Rightarrow> jsnum option \<Rightarrow> 'r search_run" where
  "search client options expectedDimensions =
     (case search_validate options expectedDimensions of
        Inl e \<Rightarrow>
          \<lparr>result = Inl (rethrow search_unexpected e),
           rpc_calls = [], retry_events = [], info_logs = []\<rparr>
      | Inr u \<Rightarrow>
          retried_rpc client search_failed search_unexpected
            (Rpc_match_documents (search_params options)) [])"

text \<open>
  \<^verbatim>\<open>searchWeighted\<close>. The four weights: \<^verbatim>\<open>options.weightMain ?? 0.25\<close> and so on,
  their total (added left to right, each sum rounded), and the normalisation. The
  literals 0.25, 0.5, 1.0 and 10 are doubles; the literal \<^verbatim>\<open>0.01\<close> is not, and denotes
  the double nearest to it.
\<close>

definition weights_zero :: js_error where
  "weights_zero = ValidationError [Txt ''Weights cannot all be zero''] (Some ''weights'')"

definition providedWeights :: "'a weighted_search_options_scheme \<Rightarrow> jsnum list" where
  "providedWeights options =
     [js_nullish_default (weightMain options) (Fin 0.25),
      js_nullish_default (weightSection1 options) (Fin 0.25),
      js_nullish_default (weightSection2 options) (Fin 0.25),
      js_nullish_default (weightSection3 options) (Fin 0.25)]"

definition totalWeight :: "'a weighted_search_options_scheme \<Rightarrow> jsnum" where
  "totalWeight options =
     js_add (js_add (js_add (providedWeights options ! 0) (providedWeights options ! 1))
                    (providedWeights options ! 2))
            (providedWeights options ! 3)"

definition needs_normalizing :: "jsnum \<Rightarrow> bool" where
  "needs_normalizing totalW = js_gt (js_abs (js_sub totalW (Fin 1))) (round64 (1 / 100))"

definition normalizedWeights :: "'a weighted_search_options_scheme \<Rightarrow> jsnum list" where
  "normalizedWeights options =
     (if needs_normalizing (totalWeight options)
      then map (\<lambda>w. js_div w (totalWeight options)) (providedWeights options)
      else providedWeights options)"

text \<open>
  The checks of \<^verbatim>\<open>searchWeighted\<close> on the query vectors: the main one as in
  \<^verbatim>\<open>search\<close>, then each section vector that is present. They come before the weights
  are looked at.
\<close>

definition vectors_validate :: "'a weighted_search_options_scheme \<Rightarrow> jsnum option \<Rightarrow> js_error + unit" where
  "vectors_validate options expectedDimensions =
     (case search_validate options expectedDimensions of
        Inl e \<Rightarrow> Inl e
      | Inr u \<Rightarrow>
          if js_truthy_num expectedDimensions
          then (case validate_if_present (querySection1 options) (the expectedDimensions) of
                  Inl e \<Rightarrow> Inl e
                | Inr u \<Rightarrow>
              (case validate_if_present (querySection2 options) (the expectedDimensions) of
                  Inl e \<Rightarrow> Inl e
                | Inr u \<Rightarrow> validate_if_present (querySection3 options) (the expectedDimensions)))
          else Inr ())"

definition weighted_validate :: "'a weighted_search_options_scheme \<Rightarrow> jsnum option \<Rightarrow> js_error + unit" where
  "weighted_validate options expectedDimensions =
     (case vectors_validate options expectedDimensions of
        Inl e \<Rightarrow> Inl e
      | Inr u \<Rightarrow>
          if js_strict_eq (totalWeight options) (Fin 0) then Inl weights_zero else Inr ())"

definition weighted_params :: "'a weighted_search_options_scheme \<Rightarrow> match_documents_weighted_params" where
  "weighted_params options =
     \<lparr>query_embedding = the (queryEmbedding options),
      match_threshold = js_or_default (matchThreshold options) (Fin 0.5),
      match_count = js_or_default (matchCount options) (Fin 10),
      filter_metadata = filterMetadata options,
      query_section_1 = querySection1 options,
      query_section_2 = querySection2 options,
      query_section_3 = querySection3 options,
      weight_main = normalizedWeights options ! 0,
      weight_section_1 = normalizedWeights options ! 1,
      weight_section_2 = normalizedWeights options ! 2,
      weight_section_3 = normalizedWeights options ! 3\<rparr>"

definition searchWeighted ::
  "(nat \<Rightarrow> rpc_call \<Rightarrow> 'r rpc_outcome) \<Rightarrow> 'a weighted_search_options_scheme \<Rightarrow> jsnum option
     \<Rightarrow> 'r search_run" where
  "searchWeighted client options expectedDimensions =
     (case weighted_validate options expectedDimensions of
        Inl e \<Rightarrow>
          \<lparr>result = Inl (rethrow weighted_unexpected e),
           rpc_calls = [], retry_events = [], info_logs = []\<rparr>
      | Inr u \<Rightarrow>
          retried_rpc client weighted_failed weighted_unexpected
            (Rpc_match_documents_weighted (weighted_params options))
            (if needs_normalizing (totalWeight options) then [[Txt weights_normalized]] else []))"

text \<open>The weights of the calls that were dispatched, one list of four per call.\<close>

fun call_weights :: "rpc_call \<Rightarrow> jsnum list" where
  "call_weights (Rpc_match_documents_weighted p) =
     [weight_main p, weight_section_1 p, weight_section_2 p, weight_section_3 p]"
| "call_weights (Rpc_match_documents p) = []"

fun call_threshold_and_count :: "rpc_call \<Rightarrow> jsnum \<times> jsnum" where
  "call_threshold_and_count (Rpc_match_documents p) = (match_threshold p, match_count p)"
| "call_threshold_and_count (Rpc_match_documents_weighted p) = (match_threshold p, match_count p)"

text \<open>
  The sum of four weights as the code adds them, left to right in double arithmetic, and
  the exact sum of a list of finite values.
\<close>

definition js_total :: "jsnum list \<Rightarrow> jsnum" where
  "js_total ws = js_add (js_add (js_add (ws ! 0) (ws ! 1)) (ws ! 2)) (ws ! 3)"

fun fin_sum :: "jsnum list \<Rightarrow> real option" where
  "fin_sum [] = Some 0"
| "fin_sum (Fin a # ws) = (case fin_sum ws of None \<Rightarrow> None | Some s \<Rightarrow> Some (a + s))"
| "fin_sum (w # ws) = None"

section \<open>Batch insert of the document manager\<close>

text \<open>
  \<^verbatim>\<open>DocumentManager.insertBatch\<close> (\<^verbatim>\<open>src/document/manager.ts\<close>). The field
  \<^verbatim>\<open>id\<close> of a document is named \<open>doc_id\<close> here. The table client is given by
  what each insert settles to: \<open>db k rows\<close> is the outcome of the \<open>k\<close>-th insert of this
  call. The progress callback returns \<open>Some e\<close> when it throws \<open>e\<close>. What the method does
  is recorded as a list of events, in order: \<open>InsertAttempt k rows\<close> is the \<open>k\<close>-th insert
  of the call, made with the objects \<open>rows\<close>, and \<open>Progress c t\<close> is the invocation
  \<^verbatim>\<open>onProgress(c, t)\<close>. The batch size is an integer.
\<close>

record document =
  doc_id :: "string option"
  content :: string
  metadata :: "json_object option"
  embedding :: "js_array option"
  embedding_section_1 :: "js_array option"
  embedding_section_2 :: "js_array option"
  embedding_section_3 :: "js_array option"
  created_at :: "string option"
  updated_at :: "string option"

text \<open>The object built for each document of a batch: six keys, \<^verbatim>\<open>metadata || {}\<close>.\<close>

definition insert_payload :: "document \<Rightarrow> document" where
  "insert_payload doc =
     \<lparr>doc_id = None, content = content doc,
      metadata = Some (case metadata doc of None \<Rightarrow> [] | Some m \<Rightarrow> m),
      embedding = embedding doc,
      embedding_section_1 = embedding_section_1 doc,
      embedding_section_2 = embedding_section_2 doc,
      embedding_section_3 = embedding_section_3 doc,
      created_at = None, updated_at = None\<rparr>"

text \<open>
  \<^verbatim>\<open>Array.prototype.slice(start, end)\<close> with integer arguments: a negative index
  counts from the end, and both are clamped to the array.
\<close>

definition js_slice :: "'a list \<Rightarrow> int \<Rightarrow> int \<Rightarrow> 'a list" where
  "js_slice xs start stop =
     (let len = int (length xs);
          s = (if start < 0 then max (len + start) 0 else min start len);
          e = (if stop < 0 then max (len + stop) 0 else min stop len)
      in take (nat (e - s)) (drop (nat s) xs))"

datatype batch_event =
    InsertAttempt nat "document list"
  | RetryWarn nat js_error
  | RetrySleep real
  | Progress nat nat

text \<open>The events of one retried insert, the attempts numbered over the whole call.\<close>

fun insert_event :: "nat \<Rightarrow> document list \<Rightarrow> retry_event \<Rightarrow> batch_event" where
  "insert_event calls rows (Attempt k) = InsertAttempt (calls + k) rows"
| "insert_event calls rows (OnRetry n e) = RetryWarn n e"
| "insert_event calls rows (Sleep d) = RetrySleep d"

text \<open>
  The retried operation: \<^verbatim>\<open>if (error) throw new SearchError(...); return data\<close>. The
  data is returned as it is, null included.
\<close>

fun insert_result :: "document rpc_outcome \<Rightarrow> js_error + document list option" where
  "insert_result (Settled data (Some (BackendError m code))) =
     Inl (SearchError [Txt ''Failed to insert batch: ${error.message}''] code)"
| "insert_result (Settled data None) = Inr data"
| "insert_result (Rejected e) = Inl e"

record batch_state =
  index :: int
  results :: "document list"
  completed :: nat
  calls :: nat
  events :: "batch_event list"

datatype batch_step =
    Stop "js_error + document list" "batch_event list"
  | Continue batch_state

text \<open>
  One round of the \<^verbatim>\<open>for\<close> loop. Spreading a null \<^verbatim>\<open>batchResult\<close> into
  \<^verbatim>\<open>results.push\<close> throws a \<^verbatim>\<open>TypeError\<close>.
\<close>

definition insert_chunk ::
  "(nat \<Rightarrow> document list \<Rightarrow> document rpc_outcome) \<Rightarrow> document list \<Rightarrow> int
     \<Rightarrow> (nat \<Rightarrow> nat \<Rightarrow> js_error option) option \<Rightarrow> batch_state \<Rightarrow> batch_step" where
  "insert_chunk db documents batchSize onProgress st =
     (let batch = js_slice documents (index st) (index st + batchSize);
          rows = map insert_payload batch
      in case withRetry (\<lambda>k. insert_result (db (calls st + k) rows)) manager_retry_options of
           (r, ev) \<Rightarrow>
             (let events1 = events st @ map (insert_event (calls st) rows) ev;
                  calls1 = calls st + length (filter is_Attempt ev)
              in case r of
                   Inl e \<Rightarrow> Stop (Inl e) events1
                 | Inr None \<Rightarrow> Stop (Inl (OtherError [Txt ''TypeError: batchResult is not iterable''])) events1
                 | Inr (Some batchResult) \<Rightarrow>
                     (let completed1 = completed st + length batch;
                          st1 = \<lparr>index = index st + batchSize, results = results st @ batchResult,
                                   completed = completed1, calls = calls1, events = events1\<rparr>
                      in case onProgress of
                           None \<Rightarrow> Continue st1
                         | Some callback \<Rightarrow>
                             (case callback completed1 (length documents) of
                                Some thrown \<Rightarrow>
                                  Stop (Inl thrown) (events1 @ [Progress completed1 (length documents)])
                              | None \<Rightarrow>
                                  Continue (st1\<lparr>events := events1 @ [Progress completed1 (length documents)]\<rparr>)))))"

text \<open>
  The loop. With a batch size that is not positive the index never passes the length, and
  the loop does not end while the inserts succeed: the result is \<open>None\<close> then.
\<close>

partial_function (option) insertBatch_loop ::
  "(nat \<Rightarrow> document list \<Rightarrow> document rpc_outcome) \<Rightarrow> document list \<Rightarrow> int
     \<Rightarrow> (nat \<Rightarrow> nat \<Rightarrow> js_error option) option \<Rightarrow> batch_state
     \<Rightarrow> ((js_error + document list) \<times> batch_event list) option"
where
  "insertBatch_loop db documents batchSize onProgress st =
     (if index st < int (length documents) then
        (case insert_chunk db documents batchSize onProgress st of
           Stop r ev \<Rightarrow> Some (r, ev)
         | Continue st' \<Rightarrow> insertBatch_loop db documents batchSize onProgress st')
      else Some (Inr (results st), events st))"

text \<open>
  The method: the default batch size, the early return on no documents, and the
  \<^verbatim>\<open>catch\<close> block, which throws a \<^verbatim>\<open>SearchError\<close> on and wraps anything else.
\<close>

definition batch_rethrow :: "js_error \<Rightarrow> js_error" where
  "batch_rethrow error =
     (if is_SearchError error then error
      else SearchError
             [Txt ''Unexpected error in batch insert: ${error instanceof Error ? error.message : 'Unknown error'}'']
             None)"

definition insertBatch ::
  "(nat \<Rightarrow> document list \<Rightarrow> document rpc_outcome) \<Rightarrow> document list \<Rightarrow> int option
     \<Rightarrow> (nat \<Rightarrow> nat \<Rightarrow> js_error option) option
     \<Rightarrow> ((js_error + document list) \<times> batch_event list) option" where
  "insertBatch db documents batchSize onProgress =
     (if length documents = 0 then Some (Inr [], [])
      else
        (case insertBatch_loop db documents (case batchSize of None \<Rightarrow> 100 | Some b \<Rightarrow> b) onProgress
                \<lparr>index = 0, results = [], completed = 0, calls = 0, events = []\<rparr> of
           None \<Rightarrow> None
         | Some (Inl e, ev) \<Rightarrow> Some (Inl (batch_rethrow e), ev)
         | Some (Inr rows, ev) \<Rightarrow> Some (Inr rows, ev)))"

text \<open>
  What the claim about progress speaks of. An insert has succeeded when the table client
  settled it without an error and with the inserted rows. The marks of a run are its
  successful inserts, each with the objects that were sent, and its progress calls, in
  the order they happened; the attempts that failed, the warnings and the sleeps of the
  retries leave no mark.
\<close>

datatype batch_mark = Inserted "document list" | Reported nat nat

fun marks :: "(nat \<Rightarrow> document list \<Rightarrow> document rpc_outcome) \<Rightarrow> batch_event \<Rightarrow> batch_mark list" where
  "marks db (InsertAttempt k rows) =
     (case insert_result (db k rows) of Inr (Some data) \<Rightarrow> [Inserted rows] | _ \<Rightarrow> [])"
| "marks db (Progress c t) = [Reported c t]"
| "marks db (RetryWarn n e) = []"
| "marks db (RetrySleep d) = []"

definition observed ::
  "(nat \<Rightarrow> document list \<Rightarrow> document rpc_outcome) \<Rightarrow> batch_event list \<Rightarrow> batch_mark list" where
  "observed db ev = concat (map (marks db) ev)"

text \<open>The progress calls among the marks.\<close>

fun reported :: "batch_mark list \<Rightarrow> (nat \<times> nat) list" where
  "reported [] = []"
| "reported (Reported c t # ms) = (c, t) # reported ms"
| "reported (Inserted rows # ms) = reported ms"

fun progress_args :: "batch_event list \<Rightarrow> (nat \<times> nat) list" where
  "progress_args [] = []"
| "progress_args (Progress c t # ev) = (c, t) # progress_args ev"
| "progress_args (e # ev) = progress_args ev"

text \<open>The number of chunks, the \<open>j\<close>-th chunk of a list, and the marks of the \<open>j\<close>-th chunk.\<close>

definition chunk_count :: "nat \<Rightarrow> nat \<Rightarrow> nat" where
  "chunk_count n b = (n + b - 1) div b"

definition chunk :: "'a list \<Rightarrow> nat \<Rightarrow> nat \<Rightarrow> 'a list" where
  "chunk xs b j = take b (drop (j * b) xs)"

definition chunk_marks ::
  "document list \<Rightarrow> nat \<Rightarrow> (nat \<Rightarrow> nat \<Rightarrow> js_error option) option \<Rightarrow> nat \<Rightarrow> batch_mark list" where
  "chunk_marks documents b onProgress j =
     (case onProgress of
        None \<Rightarrow> [Inserted (map insert_payload (chunk documents b j))]
      | Some callback \<Rightarrow>
          [Inserted (map insert_payload (chunk documents b j)),
           Reported (min ((j + 1) * b) (length documents)) (length documents)])"

section \<open>The weighted search function of the database\<close>

text \<open>
  \<^verbatim>\<open>match_documents_weighted\<close> is a PL/pgSQL function whose body is one
  \<^verbatim>\<open>RETURN QUERY SELECT\<close>. The query is kept as it is written: its expressions are
  terms of a small expression language, and the clauses are the fields of a record. Two
  things are read off that one transcription: the value of an expression on a row, and
  the check PostgreSQL makes on a query with a \<^verbatim>\<open>HAVING\<close> clause before it runs it.
  The operators \<^verbatim>\<open><=>\<close> (cosine distance, of the pgvector extension) and
  \<^verbatim>\<open>@>\<close> (jsonb containment) are parameters. SQL floats are reals.
\<close>

datatype sql_expr =
    ECol string
  | EParam string
  | ENum real
  | ENull
  | ESub sql_expr sql_expr
  | EAdd sql_expr sql_expr
  | EMul sql_expr sql_expr
  | EDist sql_expr sql_expr
  | ECoalesce sql_expr sql_expr
  | ECase sql_expr sql_expr sql_expr
  | EIsNull sql_expr
  | EIsNotNull sql_expr
  | EAnd sql_expr sql_expr
  | EOr sql_expr sql_expr
  | EContains sql_expr sql_expr
  | EGe sql_expr sql_expr
  | EAgg string sql_expr

datatype 'v sql_value =
    SNull
  | SFloat real
  | SInt int
  | SBool bool
  | SText string
  | SVector 'v
  | SJsonb json_object

record sql_select =
  select_list :: "(sql_expr \<times> string) list"
  from_table :: string
  where_clause :: "sql_expr option"
  group_by :: "sql_expr list"
  having :: "sql_expr option"
  order_by_desc :: string
  limit :: sql_expr

text \<open>The term of one section in the weighted sum, and the query of the migration.\<close>

definition both_present :: "string \<Rightarrow> string \<Rightarrow> sql_expr" where
  "both_present q e = EAnd (EIsNotNull (EParam q)) (EIsNotNull (ECol e))"

definition section_term :: "string \<Rightarrow> string \<Rightarrow> string \<Rightarrow> sql_expr" where
  "section_term q e w =
     ECoalesce
       (ECase (both_present q e)
          (EMul (ESub (ENum 1) (EDist (ECol e) (EParam q))) (EParam w))
          (ENum 0))
       (ENum 0)"

definition section_similarity :: "string \<Rightarrow> string \<Rightarrow> sql_expr" where
  "section_similarity q e =
     ECase (both_present q e) (ESub (ENum 1) (EDist (ECol e) (EParam q))) ENull"

definition main_similarity :: sql_expr where
  "main_similarity = ESub (ENum 1) (EDist (ECol ''embedding'') (EParam ''query_embedding''))"

definition weighted_similarity :: sql_expr where
  "weighted_similarity =
     EAdd (EAdd (EAdd
       (EMul (ECoalesce main_similarity (ENum 0)) (EParam ''weight_main''))
       (section_term ''query_section_1'' ''embedding_section_1'' ''weight_section_1''))
       (section_term ''query_section_2'' ''embedding_section_2'' ''weight_section_2''))
       (section_term ''query_section_3'' ''embedding_section_3'' ''weight_section_3'')"

definition weighted_search_query :: sql_select where
  "weighted_search_query =
     \<lparr>select_list =
        [(ECol ''id'', ''id''),
         (ECol ''content'', ''content''),
         (ECol ''metadata'', ''metadata''),
         (weighted_similarity, ''similarity''),
         (main_similarity, ''similarity_main''),
         (section_similarity ''query_section_1'' ''embedding_section_1'', ''similarity_section_1''),
         (section_similarity ''query_section_2'' ''embedding_section_2'', ''similarity_section_2''),
         (section_similarity ''query_section_3'' ''embedding_section_3'', ''similarity_section_3'')],
      from_table = ''documents'',
      where_clause =
        Some (EOr (EIsNull (EParam ''filter_metadata''))
                  (EContains (ECol ''metadata'') (EParam ''filter_metadata''))),
      group_by = [],
      having = Some (EGe weighted_similarity (EParam ''match_threshold'')),
      order_by_desc = ''similarity'',
      limit = EParam ''match_count''\<rparr>"

text \<open>
  The value of an expression on a row. Arithmetic, \<^verbatim>\<open><=>\<close>, \<^verbatim>\<open>@>\<close> and \<^verbatim>\<open>>=\<close> give
  NULL as soon as an operand is NULL; AND and OR are three-valued; an aggregate has no
  value on a single row.
\<close>

fun sql_arith :: "(real \<Rightarrow> real \<Rightarrow> real) \<Rightarrow> 'v sql_value \<Rightarrow> 'v sql_value \<Rightarrow> 'v sql_value" where
  "sql_arith f (SFloat a) (SFloat b) = SFloat (f a b)"
| "sql_arith f _ _ = SNull"

fun sql_and :: "'v sql_value \<Rightarrow> 'v sql_value \<Rightarrow> 'v sql_value" where
  "sql_and (SBool False) _ = SBool False"
| "sql_and _ (SBool False) = SBool False"
| "sql_and (SBool True) (SBool True) = SBool True"
| "sql_and _ _ = SNull"

fun sql_or :: "'v sql_value \<Rightarrow> 'v sql_value \<Rightarrow> 'v sql_value" where
  "sql_or (SBool True) _ = SBool True"
| "sql_or _ (SBool True) = SBool True"
| "sql_or (SBool False) (SBool False) = SBool False"
| "sql_or _ _ = SNull"

fun sql_dist :: "('v \<Rightarrow> 'v \<Rightarrow> real) \<Rightarrow> 'v sql_value \<Rightarrow> 'v sql_value \<Rightarrow> 'v sql_value" where
  "sql_dist cosine (SVector a) (SVector b) = SFloat (cosine a b)"
| "sql_dist cosine _ _ = SNull"

fun sql_contains ::
  "(json_object \<Rightarrow> json_object \<Rightarrow> bool) \<Rightarrow> 'v sql_value \<Rightarrow> 'v sql_value \<Rightarrow> 'v sql_value" where
  "sql_contains contains (SJsonb a) (SJsonb b) = SBool (contains a b)"
| "sql_contains contains _ _ = SNull"

fun sql_ge :: "'v sql_value \<Rightarrow> 'v sql_value \<Rightarrow> 'v sql_value" where
  "sql_ge (SFloat a) (SFloat b) = SBool (a \<ge> b)"
| "sql_ge _ _ = SNull"

fun sql_eval ::
  "('v \<Rightarrow> 'v \<Rightarrow> real) \<Rightarrow> (json_object \<Rightarrow> json_object \<Rightarrow> bool)
     \<Rightarrow> (string \<Rightarrow> 'v sql_value) \<Rightarrow> (string \<Rightarrow> 'v sql_value) \<Rightarrow> sql_expr \<Rightarrow> 'v sql_value" where
  "sql_eval cosine contains row params (ECol c) = row c"
| "sql_eval cosine contains row params (EParam p) = params p"
| "sql_eval cosine contains row params (ENum x) = SFloat x"
| "sql_eval cosine contains row params ENull = SNull"
| "sql_eval cosine contains row params (ESub a b) =
     sql_arith (-) (sql_eval cosine contains row params a) (sql_eval cosine contains row params b)"
| "sql_eval cosine contains row params (EAdd a b) =
     sql_arith (+) (sql_eval cosine contains row params a) (sql_eval cosine contains row params b)"
| "sql_eval cosine contains row params (EMul a b) =
     sql_arith (*) (sql_eval cosine contains row params a) (sql_eval cosine contains row params b)"
| "sql_eval cosine contains row params (EDist a b) =
     sql_dist cosine (sql_eval cosine contains row params a) (sql_eval cosine contains row params b)"
| "sql_eval cosine contains row params (ECoalesce a b) =
     (if sql_eval cosine contains row params a = SNull then sql_eval cosine contains row params b
      else sql_eval cosine contains row params a)"
| "sql_eval cosine contains row params (ECase c a b) =
     (if sql_eval cosine contains row params c = SBool True then sql_eval cosine contains row params a
      else sql_eval cosine contains row params b)"
| "sql_eval cosine contains row params (EIsNull a) = SBool (sql_eval cosine contains row params a = SNull)"
| "sql_eval cosine contains row params (EIsNotNull a) = SBool (sql_eval cosine contains row params a \<noteq> SNull)"
| "sql_eval cosine contains row params (EAnd a b) =
     sql_and (sql_eval cosine contains row params a) (sql_eval cosine contains row params b)"
| "sql_eval cosine contains row params (EOr a b) =
     sql_or (sql_eval cosine contains row params a) (sql_eval cosine contains row params b)"
| "sql_eval cosine contains row params (EContains a b) =
     sql_contains contains (sql_eval cosine contains row params a) (sql_eval cosine contains row params b)"
| "sql_eval cosine contains row params (EGe a b) =
     sql_ge (sql_eval cosine contains row params a) (sql_eval cosine contains row params b)"
| "sql_eval cosine contains row params (EAgg f a) = SNull"

text \<open>
  The grouping check. In PostgreSQL the presence of \<^verbatim>\<open>HAVING\<close> (or of an aggregate)
  turns a query into a grouped query even without \<^verbatim>\<open>GROUP BY\<close>: the selected rows
  form one group, and the select list and the \<^verbatim>\<open>HAVING\<close> clause may refer to a table
  column only inside an aggregate or when the column is grouped. A query that breaks the
  rule is rejected with SQLSTATE 42803 before any row is read. A column counts as
  grouped here when it is itself one of the \<^verbatim>\<open>GROUP BY\<close> expressions.
\<close>

fun ungrouped_columns :: "sql_expr \<Rightarrow> string list" where
  "ungrouped_columns (ECol c) = [c]"
| "ungrouped_columns (EParam p) = []"
| "ungrouped_columns (ENum x) = []"
| "ungrouped_columns ENull = []"
| "ungrouped_columns (ESub a b) = ungrouped_columns a @ ungrouped_columns b"
| "ungrouped_columns (EAdd a b) = ungrouped_columns a @ ungrouped_columns b"
| "ungrouped_columns (EMul a b) = ungrouped_columns a @ ungrouped_columns b"
| "ungrouped_columns (EDist a b) = ungrouped_columns a @ ungrouped_columns b"
| "ungrouped_columns (ECoalesce a b) = ungrouped_columns a @ ungrouped_columns b"
| "ungrouped_columns (ECase c a b) = ungrouped_columns c @ ungrouped_columns a @ ungrouped_columns b"
| "ungrouped_columns (EIsNull a) = ungrouped_columns a"
| "ungrouped_columns (EIsNotNull a) = ungrouped_columns a"
| "ungrouped_columns (EAnd a b) = ungrouped_columns a @ ungrouped_columns b"
| "ungrouped_columns (EOr a b) = ungrouped_columns a @ ungrouped_columns b"
| "ungrouped_columns (EContains a b) = ungrouped_columns a @ ungrouped_columns b"
| "ungrouped_columns (EGe a b) = ungrouped_columns a @ ungrouped_columns b"
| "ungrouped_columns (EAgg f a) = []"

fun has_aggregate :: "sql_expr \<Rightarrow> bool" where
  "has_aggregate (EAgg f a) = True"
| "has_aggregate (ESub a b) = (has_aggregate a \<or> has_aggregate b)"
| "has_aggregate (EAdd a b) = (has_aggregate a \<or> has_aggregate b)"
| "has_aggregate (EMul a b) = (has_aggregate a \<or> has_aggregate b)"
| "has_aggregate (EDist a b) = (has_aggregate a \<or> has_aggregate b)"
| "has_aggregate (ECoalesce a b) = (has_aggregate a \<or> has_aggregate b)"
| "has_aggregate (ECase c a b) = (has_aggregate c \<or> has_aggregate a \<or> has_aggregate b)"
| "has_aggregate (EIsNull a) = has_aggregate a"
| "has_aggregate (EIsNotNull a) = has_aggregate a"
| "has_aggregate (EAnd a b) = (has_aggregate a \<or> has_aggregate b)"
| "has_aggregate (EOr a b) = (has_aggregate a \<or> has_aggregate b)"
| "has_aggregate (EContains a b) = (has_aggregate a \<or> has_aggregate b)"
| "has_aggregate (EGe a b) = (has_aggregate a \<or> has_aggregate b)"
| "has_aggregate e = False"

datatype sql_error = SqlError string string

definition is_grouped_query :: "sql_select \<Rightarrow> bool" where
  "is_grouped_query q =
     (case having q of
        Some h \<Rightarrow> True
      | None \<Rightarrow> (case group_by q of
                   g # gs \<Rightarrow> True
                 | [] \<Rightarrow> list_ex has_aggregate (map fst (select_list q))))"

definition grouped_expressions :: "sql_select \<Rightarrow> sql_expr list" where
  "grouped_expressions q =
     map fst (select_list q) @ (case having q of None \<Rightarrow> [] | Some h \<Rightarrow> [h])"

definition grouping_violations :: "sql_select \<Rightarrow> string list" where
  "grouping_violations q =
     filter (\<lambda>c. \<not> list_ex (\<lambda>g. g = ECol c) (group_by q))
       (concat (map ungrouped_columns (grouped_expressions q)))"

definition check_grouping :: "sql_select \<Rightarrow> sql_error option" where
  "check_grouping q =
     (if is_grouped_query q
      then (case grouping_violations q of
              [] \<Rightarrow> None
            | c # cs \<Rightarrow> Some (SqlError ''42803'' (from_table q @ ''.'' @ c)))
      else None)"

text \<open>
  A query that is not grouped runs row by row: the rows that make the \<^verbatim>\<open>WHERE\<close>
  clause true, their select lists, ordered by the named output column descending (NULLs
  first), and cut at the limit (a NULL limit is no limit; a negative one is an error).
\<close>

fun desc_before :: "'v sql_value \<Rightarrow> 'v sql_value \<Rightarrow> bool" where
  "desc_before SNull _ = True"
| "desc_before (SFloat a) (SFloat b) = (a \<ge> b)"
| "desc_before _ _ = False"

fun output_value :: "(string \<times> 'v sql_value) list \<Rightarrow> string \<Rightarrow> 'v sql_value" where
  "output_value [] name = SNull"
| "output_value ((n, v) # cols) name = (if n = name then v else output_value cols name)"

fun insert_desc ::
  "string \<Rightarrow> (string \<times> 'v sql_value) list \<Rightarrow> (string \<times> 'v sql_value) list list
     \<Rightarrow> (string \<times> 'v sql_value) list list" where
  "insert_desc key r [] = [r]"
| "insert_desc key r (x # xs) =
     (if desc_before (output_value x key) (output_value r key) then x # insert_desc key r xs
      else r # x # xs)"

definition run_rows ::
  "('v \<Rightarrow> 'v \<Rightarrow> real) \<Rightarrow> (json_object \<Rightarrow> json_object \<Rightarrow> bool) \<Rightarrow> sql_select
     \<Rightarrow> (string \<Rightarrow> 'v sql_value) list \<Rightarrow> (string \<Rightarrow> 'v sql_value)
     \<Rightarrow> sql_error + (string \<times> 'v sql_value) list list" where
  "run_rows cosine contains q table params =
     (let kept = filter (\<lambda>row. case where_clause q of
                                  None \<Rightarrow> True
                                | Some w \<Rightarrow> sql_eval cosine contains row params w = SBool True) table;
          out = map (\<lambda>row. map (\<lambda>(e, name). (name, sql_eval cosine contains row params e))
                               (select_list q)) kept;
          sorted = foldr (insert_desc (order_by_desc q)) out []
      in case sql_eval cosine contains (\<lambda>c. SNull) params (limit q) of
           SNull \<Rightarrow> Inr sorted
         | SInt n \<Rightarrow> if n < 0 then Inl (SqlError ''2201W'' ''LIMIT must not be negative'')
                     else Inr (take (nat n) sorted)
         | v \<Rightarrow> Inl (SqlError ''42804'' ''argument of LIMIT must be type bigint''))"

text \<open>
  The function: the query is checked when the statement is first prepared, at the call;
  a grouped query that passes the check is not evaluated here, since the function's
  query cannot be one without breaking the rule.
\<close>

definition match_documents_weighted ::
  "('v \<Rightarrow> 'v \<Rightarrow> real) \<Rightarrow> (json_object \<Rightarrow> json_object \<Rightarrow> bool)
     \<Rightarrow> (string \<Rightarrow> 'v sql_value) list \<Rightarrow> (string \<Rightarrow> 'v sql_value)
     \<Rightarrow> sql_error + (string \<times> 'v sql_value) list list" where
  "match_documents_weighted cosine contains documents params =
     (case check_grouping weighted_search_query of
        Some err \<Rightarrow> Inl err
      | None \<Rightarrow>
          if is_grouped_query weighted_search_query
          then Inl (SqlError ''0A000'' ''grouped query'')
          else run_rows cosine contains weighted_search_query documents params)"

text \<open>
  A row of the table and the arguments of a call, as the values of the column and
  parameter names. A NULL embedding or argument is \<open>None\<close>.
\<close>

record 'v documents_row =
  row_id :: string
  row_content :: string
  row_metadata :: "json_object option"
  row_embedding :: "'v option"
  row_embedding_section_1 :: "'v option"
  row_embedding_section_2 :: "'v option"
  row_embedding_section_3 :: "'v option"

record 'v weighted_args =
  arg_query_embedding :: "'v option"
  arg_query_section_1 :: "'v option"
  arg_query_section_2 :: "'v option"
  arg_query_section_3 :: "'v option"
  arg_weight_main :: "real option"
  arg_weight_section_1 :: "real option"
  arg_weight_section_2 :: "real option"
  arg_weight_section_3 :: "real option"
  arg_match_threshold :: "real option"
  arg_match_count :: "int option"
  arg_filter_metadata :: "json_object option"

definition nullable :: "('a \<Rightarrow> 'v sql_value) \<Rightarrow> 'a option \<Rightarrow> 'v sql_value" where
  "nullable f x = (case x of None \<Rightarrow> SNull | Some a \<Rightarrow> f a)"

definition row_values :: "'v documents_row \<Rightarrow> string \<Rightarrow> 'v sql_value" where
  "row_values r c =
     (if c = ''id'' then SText (row_id r)
      else if c = ''content'' then SText (row_content r)
      else if c = ''metadata'' then nullable SJsonb (row_metadata r)
      else if c = ''embedding'' then nullable SVector (row_embedding r)
      else if c = ''embedding_section_1'' then nullable SVector (row_embedding_section_1 r)
      else if c = ''embedding_section_2'' then nullable SVector (row_embedding_section_2 r)
      else if c = ''embedding_section_3'' then nullable SVector (row_embedding_section_3 r)
      else SNull)"

definition arg_values :: "'v weighted_args \<Rightarrow> string \<Rightarrow> 'v sql_value" where
  "arg_values a p =
     (if p = ''query_embedding'' then nullable SVector (arg_query_embedding a)
      else if p = ''query_section_1'' then nullable SVector (arg_query_section_1 a)
      else if p = ''query_section_2'' then nullable SVector (arg_query_section_2 a)
      else if p = ''query_section_3'' then nullable SVector (arg_query_section_3 a)
      else if p = ''weight_main'' then nullable SFloat (arg_weight_main a)
      else if p = ''weight_section_1'' then nullable SFloat (arg_weight_section_1 a)
      else if p = ''weight_section_2'' then nullable SFloat (arg_weight_section_2 a)
      else if p = ''weight_section_3'' then nullable SFloat (arg_weight_section_3 a)
      else if p = ''match_threshold'' then nullable SFloat (arg_match_threshold a)
      else if p = ''match_count'' then nullable SInt (arg_match_count a)
      else if p = ''filter_metadata'' then nullable SJsonb (arg_filter_metadata a)
      else SNull)"

text \<open>
  What one slot adds to the aggregate according to the scoring contract: the similarity
  times the weight when the query vector and the document's embedding are both present,
  and 0 otherwise.
\<close>

definition slot_contribution ::
  "('v \<Rightarrow> 'v \<Rightarrow> real) \<Rightarrow> 'v option \<Rightarrow> 'v option \<Rightarrow> real \<Rightarrow> real" where
  "slot_contribution cosine q e w =
     (case (q, e) of (Some qv, Some ev) \<Rightarrow> (1 - cosine ev qv) * w | _ \<Rightarrow> 0)"

definition slot_similarity :: "('v \<Rightarrow> 'v \<Rightarrow> real) \<Rightarrow> 'v option \<Rightarrow> 'v option \<Rightarrow> 'v sql_value" where
  "slot_similarity cosine q e =
     (case (q, e) of (Some qv, Some ev) \<Rightarrow> SFloat (1 - cosine ev qv) | _ \<Rightarrow> SNull)"

section \<open>Concrete operations and backends\<close>

text \<open>
  An operation that rejects at its first \<open>n\<close> invocations and then resolves, one that
  always rejects, a predicate that finds no error retryable, and a backend whose every
  call settles at once to an empty list of rows.
\<close>

definition flaky :: "nat \<Rightarrow> nat \<Rightarrow> js_error + string" where
  "flaky n k = (if k < n then Inl (OtherError [Txt ''connect ETIMEDOUT''])
                else Inr ''done'')"

definition timeouts :: "nat \<Rightarrow> js_error" where
  "timeouts k = OtherError [Txt ''connect ETIMEDOUT'']"

definition always_rejects :: "nat \<Rightarrow> js_error + string" where
  "always_rejects k = Inl (OtherError [Txt ''bad request''])"

definition never_retryable :: "js_error \<Rightarrow> bool" where
  "never_retryable error = False"

text \<open>A callback that returns normally until its \<open>n\<close>-th invocation, where it throws.\<close>

definition throws_at :: "nat \<Rightarrow> nat \<Rightarrow> js_error \<Rightarrow> js_error option" where
  "throws_at n attempt error = (if attempt = n then Some (OtherError [Txt ''stop'']) else None)"

definition empty_backend :: "nat \<Rightarrow> rpc_call \<Rightarrow> string rpc_outcome" where
  "empty_backend k call = Settled (Some []) None"

text \<open>Options of a weighted search: a main query vector of three components and the four weight inputs.\<close>

definition weighted_query ::
  "jsnum option \<Rightarrow> jsnum option \<Rightarrow> jsnum option \<Rightarrow> jsnum option \<Rightarrow> weighted_search_options" where
  "weighted_query w0 w1 w2 w3 =
     \<lparr>queryEmbedding = Some (dense [JNumber (Fin 0.5), JNumber (Fin 0.25), JNumber (Fin 0.125)]),
      matchThreshold = None, matchCount = None, filterMetadata = None,
      querySection1 = None, querySection2 = None, querySection3 = None,
      weightMain = w0, weightSection1 = w1, weightSection2 = w2, weightSection3 = w3\<rparr>"

text \<open>
  The run of a search that fails before any call, the query vectors a weighted search
  was given, and its four weight inputs.
\<close>

definition failed_run :: "js_error \<Rightarrow> 'r search_run" where
  "failed_run e = \<lparr>result = Inl e, rpc_calls = [], retry_events = [], info_logs = []\<rparr>"

definition supplied_vectors :: "'a weighted_search_options_scheme \<Rightarrow> js_array list" where
  "supplied_vectors options =
     concat (map (\<lambda>q. case q of None \<Rightarrow> [] | Some v \<Rightarrow> [v])
       [queryEmbedding options, querySection1 options, querySection2 options, querySection3 options])"

definition weight_inputs :: "'a weighted_search_options_scheme \<Rightarrow> jsnum option list" where
  "weight_inputs options =
     [weightMain options, weightSection1 options, weightSection2 options, weightSection3 options]"

definition short_query :: search_options where
  "short_query =
     \<lparr>queryEmbedding = Some (dense [JNumber (Fin 0.5), JNumber (Fin 0.25)]),
      matchThreshold = None, matchCount = None, filterMetadata = None\<rparr>"

definition zero_options :: search_options where
  "zero_options = short_query\<lparr>matchThreshold := Some (Fin 0), matchCount := Some (Fin 0)\<rparr>"

definition zero_weighted_options :: weighted_search_options where
  "zero_weighted_options =
     (weighted_query None (Some (Fin 0)) None None)
       \<lparr>matchThreshold := Some (Fin 0), matchCount := Some (Fin 0)\<rparr>"

definition bad_section_query :: weighted_search_options where
  "bad_section_query = (weighted_query None None None None)\<lparr>querySection2 := Some (dense [JNumber (Fin 1)])\<rparr>"

definition empty_query :: search_options where
  "empty_query = short_query\<lparr>queryEmbedding := Some []\<rparr>"

definition missing_query :: weighted_search_options where
  "missing_query = (weighted_query None None None None)\<lparr>queryEmbedding := None\<rparr>"

definition all_zero_weights :: weighted_search_options where
  "all_zero_weights = weighted_query (Some (Fin 0)) (Some (Fin 0)) (Some (Fin 0)) (Some (Fin 0))"

text \<open>
  A document, a table whose every insert returns the rows it was given, and a progress
  callback that returns normally.
\<close>

definition sample_document :: document where
  "sample_document =
     \<lparr>doc_id = None, content = ''Test content'', metadata = None, embedding = None,
      embedding_section_1 = None, embedding_section_2 = None, embedding_section_3 = None,
      created_at = None, updated_at = None\<rparr>"

definition accepting_db :: "nat \<Rightarrow> document list \<Rightarrow> document rpc_outcome" where
  "accepting_db k rows = Settled (Some rows) None"

definition quiet_progress :: "nat \<Rightarrow> nat \<Rightarrow> js_error option" where
  "quiet_progress done_so_far all_documents = None"

text \<open>
  A table of one document and a call with only the main query vector, over vectors of
  reals with a distance that is always 0 and a containment that always holds.
\<close>

definition zero_distance :: "real list \<Rightarrow> real list \<Rightarrow> real" where
  "zero_distance a b = 0"

definition any_containment :: "json_object \<Rightarrow> json_object \<Rightarrow> bool" where
  "any_containment a b = True"

definition one_document :: "real list documents_row" where
  "one_document =
     \<lparr>row_id = ''123'', row_content = ''Test content'', row_metadata = Some [],
      row_embedding = Some [0.1, 0.2, 0.3], row_embedding_section_1 = None,
      row_embedding_section_2 = None, row_embedding_section_3 = None\<rparr>"

definition main_only_call :: "real list weighted_args" where
  "main_only_call =
     \<lparr>arg_query_embedding = Some [0.1, 0.2, 0.3], arg_query_section_1 = None,
      arg_query_section_2 = None, arg_query_section_3 = None,
      arg_weight_main = Some 1, arg_weight_section_1 = Some 0, arg_weight_section_2 = Some 0,
      arg_weight_section_3 = Some 0, arg_match_threshold = Some 0.5, arg_match_count = Some 10,
      arg_filter_metadata = None\<rparr>"

text \<open>
  Weights used in the examples of the weighted search. The decimal literals of a program
  denote the nearest doubles: \<open>w33\<close> is the double 0.33, \<open>total99\<close> the double 0.99,
  \<open>third\<close> the double 0.33333333333333337, \<open>w005\<close> the double 0.005, \<open>total1005\<close> the
  double 1.005, \<open>main_share\<close> the double 0.4975124378109453 and \<open>rest_share\<close> the double
  0.0024875621890547263.
\<close>

definition w33 :: real where
  "w33 = 5944751508129055 / 2 ^ 54"

definition total99 :: real where
  "total99 = 8917127262193582 / 2 ^ 53"

definition third :: real where
  "third = 6004799503160662 / 2 ^ 54"

definition thirds_query :: weighted_search_options where
  "thirds_query = weighted_query (Some (Fin w33)) (Some (Fin w33)) (Some (Fin w33)) (Some (Fin 0))"

definition w005 :: real where
  "w005 = 5764607523034235 / 2 ^ 60"

definition total1005 :: real where
  "total1005 = 4526117625507348 / 2 ^ 52"

definition small_third_query :: weighted_search_options where
  "small_third_query =
     weighted_query (Some (Fin (1 / 2))) (Some (Fin (1 / 2))) (Some (Fin w005)) (Some (Fin 0))"

definition overflow_query :: weighted_search_options where
  "overflow_query =
     weighted_query (Some (Fin (2 powi 1023))) (Some (Fin (2 powi 1023))) (Some (Fin 0)) (Some (Fin 0))"

definition main_share :: real where
  "main_share = 8962387318150241 / 2 ^ 54"

definition rest_share :: real where
  "rest_share = 5735927883616154 / 2 ^ 61"

definition near_one_query :: weighted_search_options where
  "near_one_query =
     weighted_query (Some (Fin (1 / 2))) (Some (Fin (1 / 2))) (Some (Fin (1 / 128))) (Some (Fin 0))"

section \<open>Properties of double arithmetic\<close>

text \<open>
  Powers of two with large exponents are kept as they are, not evaluated.
\<close>

declare power_int_numeral [simp del] power_int_numeral_neg_numeral [simp del]

lemma pow2_split: "0 \<le> n - m \<Longrightarrow> (2 :: real) powi n = 2 ^ nat (n - m) * 2 powi m"
proof -
  assume a: "0 \<le> n - m"
  have "(2 :: real) powi n = 2 powi (int (nat (n - m)) + m)" using a by simp
  also have "\<dots> = 2 powi int (nat (n - m)) * 2 powi m" by (rule power_int_add) simp
  also have "\<dots> = 2 ^ nat (n - m) * 2 powi m" by (simp only: power_int_of_nat)
  finally show ?thesis .
qed

lemma half_even_lower: "q - 1 / 2 \<le> of_int (half_even q)"
  unfolding half_even_def Let_def by (auto; linarith?)

lemma half_even_upper: "of_int (half_even q) \<le> q + 1 / 2"
  unfolding half_even_def Let_def by (auto; linarith?)

lemma half_even_of_int [simp]: "half_even (of_int n) = n"
  by (simp add: half_even_def)

lemma half_even_ge: "of_int n \<le> q \<Longrightarrow> n \<le> half_even q"
  unfolding half_even_def Let_def by (auto simp: le_floor_iff; linarith?)

lemma half_even_le: "q \<le> of_int n \<Longrightarrow> half_even q \<le> n"
proof -
  assume a: "q \<le> of_int n"
  show ?thesis
  proof (cases "q = of_int n")
    case True
    then show ?thesis by simp
  next
    case False
    with a have "q < of_int n" by simp
    then have "\<lfloor>q\<rfloor> < n" by (simp add: floor_less_iff)
    then show ?thesis unfolding half_even_def Let_def by auto
  qed
qed

lemma half_even_minus: "half_even (- q) = - half_even q"
proof -
  consider "q = of_int \<lfloor>q\<rfloor>" | "q \<noteq> of_int \<lfloor>q\<rfloor>" by blast
  then show ?thesis
  proof cases
    case 1
    then obtain n where "q = of_int n" ..
    then have "- q = of_int (- n)" by simp
    then show ?thesis unfolding \<open>q = of_int n\<close> by (simp only: half_even_of_int)
  next
    case 2
    then have f: "\<lfloor>- q\<rfloor> = - \<lfloor>q\<rfloor> - 1"
      by (metis ceiling_altdef ceiling_def add_diff_cancel_right' minus_diff_eq uminus_add_conv_diff)
    define n where "n = \<lfloor>q\<rfloor>"
    define d where "d = q - of_int n"
    have d: "0 < d" "d < 1" using 2 unfolding d_def n_def by linarith+
    have q: "q = of_int n + d" by (simp add: d_def)
    have e: "even (- n - 1) \<longleftrightarrow> \<not> even n" by simp
    show ?thesis
      unfolding half_even_def Let_def f n_def [symmetric]
      using d e unfolding q by (auto simp: algebra_simps)
  qed
qed

lemma pow2_pos_le: "2 powi k \<le> x \<Longrightarrow> 0 < (x :: real)"
proof -
  assume "2 powi k \<le> x"
  moreover have "0 < (2 :: real) powi k" by simp
  ultimately show ?thesis by linarith
qed

lemma pow2_mono: "m \<le> n \<Longrightarrow> (2 :: real) powi m \<le> 2 powi n"
  by (rule power_int_increasing) simp_all

lemma pow2_strict: "m < n \<Longrightarrow> (2 :: real) powi m < 2 powi n"
  by (rule power_int_strict_increasing) simp_all

lemma pow2_less_D: "(2 :: real) powi m < 2 powi n \<Longrightarrow> m < n"
  using pow2_mono [of n m] by force

lemma pow2_le_D: "(2 :: real) powi m \<le> 2 powi n \<Longrightarrow> m \<le> n"
  using pow2_strict [of n m] by force

lemma binade_bounds:
  assumes "0 < x"
  shows "2 powi binade x \<le> x" and "x < 2 powi (binade x + 1)"
proof -
  have "2 powi binade x \<le> x \<and> x < 2 powi (binade x + 1)"
  proof (cases "1 \<le> x")
    case True
    then have pos: "0 < \<lfloor>x\<rfloor>" by simp
    from bitlen_bounds [OF pos] have lo: "2 ^ nat (bitlen \<lfloor>x\<rfloor> - 1) \<le> \<lfloor>x\<rfloor>"
      and hi: "\<lfloor>x\<rfloor> < 2 ^ nat (bitlen \<lfloor>x\<rfloor>)" by simp_all
    have b1: "1 \<le> bitlen \<lfloor>x\<rfloor>"
      using pos bitlen_ge_iff_power [of 1 "\<lfloor>x\<rfloor>"] by simp
    have "(2 :: real) powi (bitlen \<lfloor>x\<rfloor> - 1) = of_int (2 ^ nat (bitlen \<lfloor>x\<rfloor> - 1))"
      using b1 by (simp add: power_int_def)
    also have "\<dots> \<le> of_int \<lfloor>x\<rfloor>" using lo by (simp only: of_int_le_iff)
    also have "\<dots> \<le> x" by simp
    finally have l: "2 powi (bitlen \<lfloor>x\<rfloor> - 1) \<le> x" .
    have "\<lfloor>x\<rfloor> + 1 \<le> 2 ^ nat (bitlen \<lfloor>x\<rfloor>)" using hi by simp
    then have "of_int (\<lfloor>x\<rfloor> + 1) \<le> (of_int (2 ^ nat (bitlen \<lfloor>x\<rfloor>)) :: real)"
      by (simp only: of_int_le_iff)
    moreover have "x < of_int (\<lfloor>x\<rfloor> + 1)" by linarith
    moreover have "(of_int (2 ^ nat (bitlen \<lfloor>x\<rfloor>)) :: real) = 2 powi (bitlen \<lfloor>x\<rfloor> - 1 + 1)"
      using b1 by (simp add: power_int_def)
    ultimately have "x < 2 powi (bitlen \<lfloor>x\<rfloor> - 1 + 1)" by linarith
    with l True show ?thesis by (simp add: binade_def)
  next
    case False
    define y where "y = 1 / x"
    define n where "n = \<lceil>y\<rceil>"
    define k where "k = bitlen (n - 1)"
    from False assms have y1: "1 < y" by (simp add: y_def)
    then have n2: "2 \<le> n" unfolding n_def by linarith
    then have pos: "0 < n - 1" by simp
    from bitlen_bounds [OF pos] have lo: "2 ^ nat (k - 1) \<le> n - 1" and hi: "n - 1 < 2 ^ nat k"
      by (simp_all add: k_def)
    have k1: "1 \<le> k"
      unfolding k_def using pos bitlen_ge_iff_power [of 1 "n - 1"] by simp
    have "n \<le> 2 ^ nat k" using hi by simp
    then have "(of_int n :: real) \<le> of_int (2 ^ nat k)" by (simp only: of_int_le_iff)
    moreover have "(of_int (2 ^ nat k) :: real) = 2 ^ nat k" by simp
    moreover have "y \<le> of_int n" unfolding n_def by linarith
    ultimately have yk: "y \<le> 2 ^ nat k" by linarith
    have "(of_int (2 ^ nat (k - 1)) :: real) \<le> of_int (n - 1)" using lo by (simp only: of_int_le_iff)
    moreover have "(of_int (2 ^ nat (k - 1)) :: real) = 2 ^ nat (k - 1)" by simp
    moreover have "of_int (n - 1) < y" unfolding n_def by linarith
    ultimately have ky: "2 ^ nat (k - 1) < y" by linarith
    have xy: "x = 1 / y" using assms by (simp add: y_def)
    have p1: "(2 :: real) powi (- k) = 1 / 2 ^ nat k"
      using k1 by (simp add: power_int_def field_simps)
    have p2: "(2 :: real) powi (- k + 1) = 1 / 2 ^ nat (k - 1)"
      using k1 by (simp add: power_int_def field_simps)
    have "1 / 2 ^ nat k \<le> 1 / y"
      using yk y1 by (simp add: frac_le)
    moreover have "1 / y < 1 / 2 ^ nat (k - 1)"
      using ky by (simp add: frac_less2)
    ultimately have "2 powi (- k) \<le> x \<and> x < 2 powi (- k + 1)"
      unfolding p1 p2 xy by simp
    moreover have "binade x = - k"
      using False by (simp add: binade_def k_def n_def y_def)
    ultimately show ?thesis by simp
  qed
  then show "2 powi binade x \<le> x" and "x < 2 powi (binade x + 1)" by simp_all
qed

lemma binade_eqI:
  assumes "2 powi e \<le> x" and "x < 2 powi (e + 1)"
  shows "binade x = e"
proof -
  have pos: "0 < x" using assms(1) by (rule pow2_pos_le)
  note b = binade_bounds [OF pos]
  have "(2 :: real) powi e < 2 powi (binade x + 1)" using assms(1) b(2) by linarith
  then have "e < binade x + 1" by (rule pow2_less_D)
  moreover have "(2 :: real) powi binade x < 2 powi (e + 1)" using assms(2) b(1) by linarith
  then have "binade x < e + 1" by (rule pow2_less_D)
  ultimately show ?thesis by simp
qed

lemma ulp_pos [simp]: "0 < ulp x"
  by (simp add: ulp_def)

lemma ulp_nonneg [simp]: "0 \<le> ulp x"
  by (simp add: ulp_def)

lemma ulp_nonzero [simp]: "ulp x \<noteq> 0"
  by (simp add: ulp_def)

lemma ulp_abs [simp]: "ulp \<bar>x\<bar> = ulp x"
  by (simp add: ulp_def)

lemma ulp_minus [simp]: "ulp (- x) = ulp x"
  by (simp add: ulp_def)

lemma huge_pos: "0 < huge"
  by (simp add: huge_def)

lemma pow_less_huge: "k < 1024 \<Longrightarrow> 2 powi k < huge"
  unfolding huge_def by (rule pow2_strict)

lemma round64_rounded:
  "x \<noteq> 0 \<Longrightarrow> round64 x =
     (if huge \<le> rounded x then PosInf
      else if rounded x \<le> - huge then NegInf else Fin (rounded x))"
  by (simp add: round64_def rounded_def Let_def)

lemma round64_FinD: "round64 x = Fin r \<Longrightarrow> x \<noteq> 0 \<Longrightarrow> r = rounded x \<and> \<bar>r\<bar> < huge"
  by (auto simp: round64_rounded split: if_splits)

lemma round64_Fin_rounded: "x \<noteq> 0 \<Longrightarrow> \<bar>rounded x\<bar> < huge \<Longrightarrow> round64 x = Fin (rounded x)"
  by (auto simp: round64_rounded)

lemma rounded_minus: "rounded (- x) = - rounded x"
  by (simp add: rounded_def half_even_minus)

lemma rounded_error: "\<bar>rounded x - x\<bar> \<le> ulp x / 2"
proof -
  define q where "q = x / ulp x"
  have x: "x = q * ulp x" by (simp add: q_def)
  have "\<bar>of_int (half_even q) - q\<bar> \<le> 1 / 2"
    using half_even_lower [of q] half_even_upper [of q] by linarith
  then have "\<bar>of_int (half_even q) - q\<bar> * ulp x \<le> 1 / 2 * ulp x"
    by (rule mult_right_mono) simp
  moreover have "\<bar>rounded x - x\<bar> = \<bar>of_int (half_even q) - q\<bar> * ulp x"
  proof -
    have "rounded x - x = (of_int (half_even q) - q) * ulp x"
      unfolding rounded_def q_def [symmetric] using x by (simp add: algebra_simps)
    then show ?thesis by (simp add: abs_mult)
  qed
  ultimately show ?thesis by simp
qed

lemma round64_error: "round64 x = Fin r \<Longrightarrow> \<bar>r - x\<bar> \<le> ulp x / 2"
proof (cases "x = 0")
  case True
  moreover assume "round64 x = Fin r"
  ultimately have "r = 0" by (simp add: round64_def)
  with True show ?thesis using ulp_pos [of 0] by (simp add: less_imp_le)
next
  case False
  moreover assume "round64 x = Fin r"
  ultimately have "r = rounded x" using round64_FinD by blast
  then show ?thesis using rounded_error [of x] by simp
qed

lemma binade_abs_ge:
  assumes "2 powi k \<le> \<bar>x\<bar>"
  shows "k \<le> binade \<bar>x\<bar>"
proof -
  have pos: "0 < \<bar>x\<bar>" using assms by (rule pow2_pos_le)
  from binade_bounds(2) [OF pos] assms have "(2 :: real) powi k < 2 powi (binade \<bar>x\<bar> + 1)"
    by linarith
  then have "k < binade \<bar>x\<bar> + 1" by (rule pow2_less_D)
  then show ?thesis by simp
qed

lemma binade_abs_less:
  assumes "x \<noteq> 0" and "\<bar>x\<bar> < 2 powi k"
  shows "binade \<bar>x\<bar> < k"
proof -
  have pos: "0 < \<bar>x\<bar>" using assms(1) by simp
  from binade_bounds(1) [OF pos] assms(2) have "(2 :: real) powi binade \<bar>x\<bar> < 2 powi k"
    by linarith
  then show ?thesis by (rule pow2_less_D)
qed

lemma binade_abs_le:
  assumes "x \<noteq> 0" and "\<bar>x\<bar> \<le> 2 powi k"
  shows "binade \<bar>x\<bar> \<le> k"
proof -
  have pos: "0 < \<bar>x\<bar>" using assms(1) by simp
  from binade_bounds(1) [OF pos] assms(2) have "(2 :: real) powi binade \<bar>x\<bar> \<le> 2 powi k"
    by linarith
  then show ?thesis by (rule pow2_le_D)
qed

lemma ulp_normal:
  assumes "2 powi (- 1022) \<le> \<bar>x\<bar>"
  shows "ulp x = 2 powi (binade \<bar>x\<bar> - 52)" and "ulp x \<le> \<bar>x\<bar> / 2 ^ 52"
proof -
  have ge: "- 1022 \<le> binade \<bar>x\<bar>" using assms by (rule binade_abs_ge)
  then show u: "ulp x = 2 powi (binade \<bar>x\<bar> - 52)" by (simp add: ulp_def max_def)
  have pos: "0 < \<bar>x\<bar>" using assms by (rule pow2_pos_le)
  have "(2 :: real) powi (binade \<bar>x\<bar> - 52) = 2 powi binade \<bar>x\<bar> / 2 ^ 52"
    by (simp add: power_int_diff power_int_numeral)
  also have "\<dots> \<le> \<bar>x\<bar> / 2 ^ 52"
    using binade_bounds(1) [OF pos] by (simp add: divide_right_mono)
  finally show "ulp x \<le> \<bar>x\<bar> / 2 ^ 52" unfolding u .
qed

lemma ulp_subnormal:
  assumes "x \<noteq> 0" and "\<bar>x\<bar> < 2 powi (- 1022)"
  shows "ulp x = 2 powi (- 1074)"
proof -
  have "binade \<bar>x\<bar> < - 1022" using assms by (rule binade_abs_less)
  then show ?thesis by (simp add: ulp_def max_def)
qed

lemma round64_relative:
  assumes "round64 x = Fin r" and "2 powi (- 1022) \<le> \<bar>x\<bar>"
  shows "\<bar>r - x\<bar> \<le> \<bar>x\<bar> / 2 ^ 53"
proof -
  have "\<bar>r - x\<bar> \<le> ulp x / 2" using assms(1) by (rule round64_error)
  also have "\<dots> \<le> (\<bar>x\<bar> / 2 ^ 52) / 2"
    using ulp_normal(2) [OF assms(2)] by simp
  also have "\<dots> = \<bar>x\<bar> / 2 ^ 53" by simp
  finally show ?thesis .
qed

lemma on_grid_0 [simp]: "on_grid 0"
  unfolding on_grid_def by (rule exI [of _ 0]) simp

lemma on_grid_add: "on_grid a \<Longrightarrow> on_grid b \<Longrightarrow> on_grid (a + b)"
  unfolding on_grid_def
proof (elim exE)
  fix k l :: int
  assume "a = of_int k * 2 powi (- 1074)" "b = of_int l * 2 powi (- 1074)"
  then have "a + b = of_int (k + l) * 2 powi (- 1074)" by (simp add: algebra_simps)
  then show "\<exists>m :: int. a + b = of_int m * 2 powi (- 1074)" ..
qed

lemma ulp_grid: "\<exists>m :: nat. ulp x = 2 ^ m * 2 powi (- 1074)"
proof -
  define e where "e = max (binade \<bar>x\<bar>) (- 1022)"
  have e: "0 \<le> (e - 52) - (- 1074)" by (simp add: e_def)
  from pow2_split [OF e] show ?thesis unfolding ulp_def e_def [symmetric] by blast
qed

lemma rounded_on_grid: "on_grid (rounded x)"
proof -
  from ulp_grid [of x] obtain m :: nat where m: "ulp x = 2 ^ m * 2 powi (- 1074)" ..
  have "rounded x = of_int (half_even (x / ulp x) * 2 ^ m) * 2 powi (- 1074)"
    unfolding rounded_def by (subst m) simp
  then show ?thesis unfolding on_grid_def ..
qed

lemma round64_on_grid: "round64 x = Fin r \<Longrightarrow> on_grid r"
proof (cases "x = 0")
  case True
  moreover assume "round64 x = Fin r"
  ultimately show ?thesis by (simp add: round64_def)
next
  case False
  moreover assume "round64 x = Fin r"
  ultimately have "r = rounded x" using round64_FinD by blast
  then show ?thesis by (simp add: rounded_on_grid)
qed

lemma is_double_on_grid: "is_double x \<Longrightarrow> on_grid x"
  unfolding is_double_def by (rule round64_on_grid)

lemma round64_exact_subnormal:
  assumes "on_grid x" and "\<bar>x\<bar> < 2 powi (- 1022)"
  shows "round64 x = Fin x"
proof (cases "x = 0")
  case True
  then show ?thesis by (simp add: round64_def)
next
  case False
  from assms(1) obtain k :: int where k: "x = of_int k * 2 powi (- 1074)"
    unfolding on_grid_def ..
  have u: "ulp x = 2 powi (- 1074)" using False assms(2) by (rule ulp_subnormal)
  have q: "x / ulp x = of_int k" unfolding u by (subst k) simp
  have "rounded x = of_int k * ulp x" unfolding rounded_def q by simp
  also have "\<dots> = x" unfolding u using k by simp
  finally have r: "rounded x = x" .
  have "(2 :: real) powi (- 1022) < huge" by (rule pow_less_huge) simp
  then have "\<bar>x\<bar> < huge" using assms(2) by linarith
  then show ?thesis using round64_Fin_rounded [OF False] r by simp
qed

lemma rounded_nonneg: "0 \<le> x \<Longrightarrow> 0 \<le> rounded x"
proof -
  assume "0 \<le> x"
  then have "of_int 0 \<le> x / ulp x" by simp
  then have "0 \<le> half_even (x / ulp x)" by (rule half_even_ge)
  then show ?thesis by (simp add: rounded_def)
qed

lemma round64_nonneg:
  assumes "0 \<le> x" and "round64 x = Fin r"
  shows "0 \<le> r"
proof (cases "x = 0")
  case True
  with assms(2) show ?thesis by (simp add: round64_def)
next
  case False
  with assms(2) have "r = rounded x" using round64_FinD by blast
  then show ?thesis using rounded_nonneg [OF assms(1)] by simp
qed

lemma rounded_le_pow:
  assumes x: "x \<noteq> 0" and le: "\<bar>x\<bar> \<le> 2 powi k" and k: "- 1022 \<le> k"
  shows "rounded x \<le> 2 powi k"
proof -
  define e where "e = max (binade \<bar>x\<bar>) (- 1022)"
  have "binade \<bar>x\<bar> \<le> k" using x le by (rule binade_abs_le)
  then have ek: "e \<le> k" using k by (simp add: e_def)
  have u: "ulp x = 2 powi (e - 52)" by (simp add: ulp_def e_def)
  have "0 \<le> k - (e - 52)" using ek by simp
  from pow2_split [OF this] have "(2 :: real) powi k = 2 ^ nat (k - (e - 52)) * ulp x"
    by (simp only: u)
  moreover have "k - (e - 52) = k - e + 52" by simp
  ultimately have p: "2 powi k = of_int (2 ^ nat (k - e + 52)) * ulp x" by simp
  have "x \<le> 2 powi k" using le by linarith
  then have "x / ulp x \<le> of_int (2 ^ nat (k - e + 52))"
    by (subst (asm) p) (simp add: pos_divide_le_eq)
  then have "half_even (x / ulp x) \<le> 2 ^ nat (k - e + 52)" by (rule half_even_le)
  then have "(of_int (half_even (x / ulp x)) :: real) \<le> of_int (2 ^ nat (k - e + 52))"
    by (simp only: of_int_le_iff)
  then have "of_int (half_even (x / ulp x)) * ulp x \<le> of_int (2 ^ nat (k - e + 52)) * ulp x"
    by (rule mult_right_mono) simp
  then show ?thesis unfolding rounded_def p .
qed

lemma rounded_ge_pow:
  assumes ge: "2 powi k \<le> x" and k: "- 1022 \<le> k"
  shows "2 powi k \<le> rounded x"
proof -
  have pos: "0 < x" using ge by (rule pow2_pos_le)
  then have ax: "\<bar>x\<bar> = x" by simp
  define e where "e = binade \<bar>x\<bar>"
  have ke: "k \<le> e" unfolding e_def using ge ax binade_abs_ge [of k x] by simp
  then have "max (binade \<bar>x\<bar>) (- 1022) = e" using k by (simp add: e_def)
  then have u: "ulp x = 2 powi (e - 52)" by (simp add: ulp_def)
  have "0 \<le> e - (e - 52)" by simp
  from pow2_split [OF this] have "(2 :: real) powi e = 2 ^ nat (e - (e - 52)) * ulp x"
    by (simp only: u)
  moreover have "nat (e - (e - 52)) = 52" by simp
  ultimately have p: "2 powi e = of_int (2 ^ 52) * ulp x" by simp
  have "2 powi e \<le> x" using binade_bounds(1) [OF pos] ax by (simp add: e_def)
  then have "of_int (2 ^ 52) \<le> x / ulp x"
    by (subst (asm) p) (simp add: pos_le_divide_eq)
  then have "2 ^ 52 \<le> half_even (x / ulp x)" by (rule half_even_ge)
  then have "(of_int (2 ^ 52) :: real) \<le> of_int (half_even (x / ulp x))"
    by (simp only: of_int_le_iff)
  then have "of_int (2 ^ 52) * ulp x \<le> of_int (half_even (x / ulp x)) * ulp x"
    by (rule mult_right_mono) simp
  then have "2 powi e \<le> rounded x" unfolding rounded_def p .
  moreover have "(2 :: real) powi k \<le> 2 powi e" using ke by (rule pow2_mono)
  ultimately show ?thesis by linarith
qed

lemma round64_finite:
  assumes "0 \<le> x" and "x \<le> 2 powi k" and "- 1022 \<le> k" and "k < 1024"
  shows "\<exists>r. round64 x = Fin r \<and> 0 \<le> r \<and> r \<le> 2 powi k"
proof (cases "x = 0")
  case True
  then show ?thesis by (simp add: round64_def)
next
  case False
  have "rounded x \<le> 2 powi k"
    using False assms(1,2,3) by (intro rounded_le_pow) simp_all
  moreover have "(2 :: real) powi k < huge" using assms(4) by (rule pow_less_huge)
  moreover have "0 \<le> rounded x" using assms(1) by (rule rounded_nonneg)
  ultimately show ?thesis
    using round64_Fin_rounded [OF False] by simp
qed

lemma rounded_abs_le_pow:
  assumes x: "x \<noteq> 0" and le: "\<bar>x\<bar> \<le> 2 powi k" and k: "- 1022 \<le> k"
  shows "\<bar>rounded x\<bar> \<le> 2 powi k"
proof -
  have "rounded x \<le> 2 powi k" using assms by (rule rounded_le_pow)
  moreover have "rounded (- x) \<le> 2 powi k" using assms by (intro rounded_le_pow) simp_all
  ultimately show ?thesis by (simp add: rounded_minus abs_le_iff)
qed

lemma round64_eval:
  assumes lo: "2 powi e \<le> \<bar>x\<bar>" and hi: "\<bar>x\<bar> < 2 powi (e + 1)" and e: "- 1022 \<le> e" "e < 1023"
  shows "round64 x = Fin (of_int (half_even (x / 2 powi (e - 52))) * 2 powi (e - 52))"
proof -
  have pos: "0 < \<bar>x\<bar>" using lo by (rule pow2_pos_le)
  then have x: "x \<noteq> 0" by simp
  have b: "binade \<bar>x\<bar> = e" using lo hi by (rule binade_eqI)
  have u: "ulp x = 2 powi (e - 52)" using e(1) by (simp add: ulp_def b)
  have "\<bar>rounded x\<bar> \<le> 2 powi (e + 1)"
    using x hi e(1) by (intro rounded_abs_le_pow) simp_all
  moreover have "(2 :: real) powi (e + 1) < huge" using e(2) by (intro pow_less_huge) simp
  ultimately have "\<bar>rounded x\<bar> < huge" by linarith
  then have "round64 x = Fin (rounded x)" using x by (rule round64_Fin_rounded [rotated])
  then show ?thesis by (simp add: rounded_def u)
qed

lemma round64_cent: "round64 (1 / 100) = Fin cent"
proof -
  have "round64 (1 / 100) = Fin (of_int (half_even ((1 / 100) / 2 powi (- 7 - 52))) * 2 powi (- 7 - 52))"
    by (rule round64_eval) (simp_all add: power_int_numeral_neg_numeral)
  also have "(1 / 100 :: real) / 2 powi (- 7 - 52) = 2 ^ 59 / 100"
    by (simp add: power_int_numeral_neg_numeral)
  also have "half_even (2 ^ 59 / 100) = 5764607523034235"
    by (simp add: half_even_def Let_def)
  finally show ?thesis by (simp add: cent_def power_int_numeral_neg_numeral)
qed

lemma round64_0 [simp]: "round64 0 = Fin 0"
  by (simp add: round64_def)

lemma half_even_0 [simp]: "half_even 0 = 0"
  using half_even_of_int [of 0] by simp

lemma round64_minus: "round64 (- x) = js_neg (round64 x)"
proof (cases "x = 0")
  case True
  then show ?thesis by simp
next
  case False
  show ?thesis
    using False huge_pos by (auto simp: round64_rounded rounded_minus)
qed

lemma round64_nonneg_cases:
  assumes "0 \<le> x"
  shows "round64 x = PosInf \<or> (\<exists>r. round64 x = Fin r \<and> 0 \<le> r \<and> r = rounded x)"
proof (cases "x = 0")
  case True
  then show ?thesis by (simp add: rounded_def)
next
  case False
  have "0 \<le> rounded x" using assms by (rule rounded_nonneg)
  then show ?thesis using False huge_pos by (auto simp: round64_rounded)
qed

lemma js_abs_round64: "js_abs (round64 x) = round64 \<bar>x\<bar>"
proof (cases "0 \<le> x")
  case True
  from round64_nonneg_cases [OF True] show ?thesis using True by auto
next
  case False
  then have n: "0 \<le> - x" by simp
  have "round64 x = js_neg (round64 (- x))" using round64_minus [of "- x"] by simp
  moreover from round64_nonneg_cases [OF n]
  have "js_abs (js_neg (round64 (- x))) = round64 (- x)" by auto
  ultimately show ?thesis using False by simp
qed

lemma rounded_le_multiple:
  assumes "x \<le> of_int n * ulp x"
  shows "rounded x \<le> of_int n * ulp x"
proof -
  have "x / ulp x \<le> of_int n" using assms by (simp add: pos_divide_le_eq)
  then have "half_even (x / ulp x) \<le> n" by (rule half_even_le)
  then have "(of_int (half_even (x / ulp x)) :: real) \<le> of_int n" by (simp only: of_int_le_iff)
  then show ?thesis unfolding rounded_def by (rule mult_right_mono) simp
qed

lemma pow_m7: "(2 :: real) powi (- 7) = 1 / 128" and pow_m6: "(2 :: real) powi (- 6) = 1 / 64"
  and pow_m59: "(2 :: real) powi (- 59) = 1 / 2 ^ 59"
  and pow_m53: "(2 :: real) powi (- 53) = 1 / 2 ^ 53"
  by (simp_all add: power_int_numeral_neg_numeral field_simps)

text \<open>The guard, first direction: a difference of at most 0.01 is not found greater than the double 0.01.\<close>

lemma guard_within:
  assumes "\<bar>y\<bar> \<le> 1 / 100"
  shows "\<not> js_gt (js_abs (round64 y)) (Fin cent)"
proof -
  define z where "z = \<bar>y\<bar>"
  have z: "0 \<le> z" "z \<le> 1 / 100" using assms by (simp_all add: z_def)
  have "\<exists>r. round64 z = Fin r \<and> r \<le> cent"
  proof (cases "z \<le> 2 powi (- 7)")
    case True
    from round64_finite [OF z(1) True] obtain r where "round64 z = Fin r" "r \<le> 2 powi (- 7)"
      by auto
    moreover have "(2 :: real) powi (- 7) \<le> cent" by (simp add: pow_m7 cent_def)
    ultimately show ?thesis by force
  next
    case False
    then have lo: "2 powi (- 7) \<le> \<bar>z\<bar>" using z(1) by simp
    have hi: "\<bar>z\<bar> < 2 powi (- 7 + 1)" using z by (simp add: pow_m6)
    have b: "binade \<bar>z\<bar> = - 7" using lo hi by (rule binade_eqI)
    have u: "ulp z = 2 powi (- 59)" by (simp add: ulp_def b)
    have "z \<le> of_int 5764607523034235 * ulp z"
      unfolding u pow_m59 using z(2) by simp
    then have "rounded z \<le> of_int 5764607523034235 * ulp z" by (rule rounded_le_multiple)
    then have le: "rounded z \<le> cent" by (simp add: u pow_m59 cent_def)
    have "cent < 2 powi 0" by (simp add: cent_def)
    moreover have "(2 :: real) powi 0 < huge" by (rule pow_less_huge) simp
    moreover have "0 \<le> rounded z" using z(1) by (rule rounded_nonneg)
    ultimately have "\<bar>rounded z\<bar> < huge" using le by linarith
    moreover have "z \<noteq> 0" using pow2_pos_le [OF lo] by simp
    ultimately have "round64 z = Fin (rounded z)" by (rule round64_Fin_rounded [rotated])
    with le show ?thesis by simp
  qed
  then show ?thesis unfolding js_abs_round64 z_def [symmetric] by auto
qed

text \<open>A double greater than 1/2 in magnitude is a multiple of \<open>2 powi - 53\<close>.\<close>

lemma round64_coarse_grid:
  assumes r: "round64 x = Fin t" and t: "1 / 2 < \<bar>t\<bar>"
  shows "\<exists>m :: int. t = of_int m * 2 powi (- 53)"
proof -
  have x: "x \<noteq> 0" using r t by (cases "x = 0") simp_all
  then have tr: "t = rounded x" using r round64_FinD by blast
  define e where "e = max (binade \<bar>x\<bar>) (- 1022)"
  have u: "ulp x = 2 powi (e - 52)" by (simp add: ulp_def e_def)
  have e: "- 1 \<le> e"
  proof (rule ccontr)
    assume "\<not> - 1 \<le> e"
    then have b: "binade \<bar>x\<bar> + 1 \<le> - 1" by (simp add: e_def)
    have "\<bar>x\<bar> < 2 powi (binade \<bar>x\<bar> + 1)" using x by (intro binade_bounds(2)) simp
    moreover have "(2 :: real) powi (binade \<bar>x\<bar> + 1) \<le> 2 powi (- 1)" using b by (rule pow2_mono)
    ultimately have "\<bar>x\<bar> \<le> 2 powi (- 1)" by linarith
    with x have "\<bar>rounded x\<bar> \<le> 2 powi (- 1)" by (intro rounded_abs_le_pow) simp_all
    moreover have "(2 :: real) powi (- 1) = 1 / 2" by (simp add: power_int_minus_divide)
    ultimately show False using t tr by simp
  qed
  then have "0 \<le> (e - 52) - (- 53)" by simp
  from pow2_split [OF this] obtain k :: nat where k: "ulp x = 2 ^ k * 2 powi (- 53)"
    unfolding u by blast
  have "t = of_int (half_even (x / ulp x) * 2 ^ k) * 2 powi (- 53)"
    unfolding tr rounded_def by (subst (2) k) simp
  then show ?thesis ..
qed

text \<open>
  The guard, second direction: when the total is a double that differs from 1 by more
  than 0.01, the difference as computed is greater than the double 0.01.
\<close>

lemma guard_beyond:
  assumes r: "round64 x = Fin t" and far: "1 / 100 < \<bar>t - 1\<bar>"
  shows "js_gt (js_abs (round64 (t - 1))) (Fin cent)"
proof -
  define y where "y = \<bar>t - 1\<bar>"
  have y: "1 / 100 < y" using far by (simp add: y_def)
  then have y0: "0 \<le> y" "y \<noteq> 0" by simp_all
  have c6: "cent < 2 powi (- 6)" by (simp add: cent_def pow_m6)
  have "round64 y = PosInf \<or> (\<exists>r. round64 y = Fin r \<and> cent < r)"
  proof (cases "2 powi (- 6) \<le> y")
    case True
    then have "2 powi (- 6) \<le> rounded y" by (rule rounded_ge_pow) simp
    with round64_nonneg_cases [OF y0(1)] c6 show ?thesis by auto
  next
    case False
    then have small: "y < 1 / 64" by (simp add: pow_m6)
    then have "1 / 2 < \<bar>t\<bar>" unfolding y_def by linarith
    from round64_coarse_grid [OF r this] obtain m :: int where m: "t = of_int m * 2 powi (- 53)" ..
    have t1: "t - 1 = of_int (m - 2 ^ 53) * 2 powi (- 53)"
      unfolding m by (simp add: pow_m53 algebra_simps)
    define n where "n = \<bar>m - 2 ^ 53\<bar>"
    have yn: "y = of_int n * 2 powi (- 53)"
      unfolding y_def t1 n_def by (simp add: abs_mult)
    have "1 / 100 < real_of_int n / 2 ^ 53" using y unfolding yn pow_m53 by simp
    then have "real_of_int 90071992547409 < real_of_int n" by (simp add: field_simps)
    then have "90071992547409 < n" by (simp only: of_int_less_iff)
    then have n: "90071992547410 \<le> n" by simp
    have lo: "2 powi (- 7) \<le> \<bar>y\<bar>" using y by (simp add: pow_m7)
    have hi: "\<bar>y\<bar> < 2 powi (- 7 + 1)" using small y0(1) by (simp add: pow_m6)
    have b: "binade \<bar>y\<bar> = - 7" using lo hi by (rule binade_eqI)
    have u: "ulp y = 2 powi (- 59)" by (simp add: ulp_def b)
    have s: "of_int n * 2 powi (- 53) = of_int (n * 64) * (2 :: real) powi (- 59)"
      by (simp add: pow_m53 pow_m59)
    have yu: "y = of_int (n * 64) * ulp y" unfolding u using yn s by simp
    have q: "y / ulp y = of_int (n * 64)" by (subst yu) simp
    have "rounded y = of_int (n * 64) * ulp y" by (simp only: rounded_def q half_even_of_int)
    also have "\<dots> = y" using yu by simp
    finally have ry: "rounded y = y" .
    have "(1 / 64 :: real) = 2 powi (- 6)" by (simp add: pow_m6)
    moreover have "(2 :: real) powi (- 6) < huge" by (rule pow_less_huge) simp
    ultimately have "\<bar>rounded y\<bar> < huge" using small y0(1) ry by simp
    then have "round64 y = Fin y" using round64_Fin_rounded [OF y0(2)] ry by simp
    moreover have "cent < y"
    proof -
      have "cent < real_of_int 90071992547410 / 2 ^ 53" by (simp add: cent_def)
      also have "\<dots> \<le> real_of_int n / 2 ^ 53"
        using n by (simp add: divide_right_mono)
      finally show ?thesis unfolding yn pow_m53 by simp
    qed
    ultimately show ?thesis by simp
  qed
  then show ?thesis unfolding js_abs_round64 y_def [symmetric] by auto
qed



lemma js_add_FinD:
  "js_add x y = Fin t \<Longrightarrow> \<exists>a b. x = Fin a \<and> y = Fin b \<and> round64 (a + b) = Fin t"
  by (cases x; cases y) simp_all

lemma add_rounding:
  assumes grid: "on_grid a" "on_grid b" and nn: "0 \<le> a" "0 \<le> b"
    and r: "round64 (a + b) = Fin s"
  shows "on_grid s" and "0 \<le> s" and "\<bar>s - (a + b)\<bar> \<le> (a + b) / 2 ^ 53"
proof -
  show "on_grid s" using r by (rule round64_on_grid)
  have ab: "0 \<le> a + b" using nn by (rule add_nonneg_nonneg)
  show "0 \<le> s" using ab r by (rule round64_nonneg)
  show "\<bar>s - (a + b)\<bar> \<le> (a + b) / 2 ^ 53"
  proof (cases "2 powi (- 1022) \<le> \<bar>a + b\<bar>")
    case True
    have "\<bar>a + b\<bar> = a + b" using ab by (rule abs_of_nonneg)
    with round64_relative [OF r True] show ?thesis by (simp only:)
  next
    case False
    then have "\<bar>a + b\<bar> < 2 powi (- 1022)" by simp
    with on_grid_add [OF grid] have "round64 (a + b) = Fin (a + b)"
      by (rule round64_exact_subnormal)
    with r have "s = a + b" by (simp only: jsnum.inject)
    moreover have "0 \<le> (a + b) / 2 ^ 53" using ab by (rule divide_nonneg_nonneg) simp
    ultimately show ?thesis by simp
  qed
qed

lemma abs_error_bounds:
  fixes s x u :: real
  assumes "\<bar>s - x\<bar> \<le> x * u"
  shows "s \<le> x * (1 + u)" and "x * (1 - u) \<le> s"
proof -
  have e: "x * (1 + u) = x + x * u" "x * (1 - u) = x - x * u"
    by (simp_all add: distrib_left right_diff_distrib)
  show "s \<le> x * (1 + u)" unfolding e using assms by linarith
  show "x * (1 - u) \<le> s" unfolding e using assms by linarith
qed

lemma step_up:
  fixes s s' x c k u :: real
  assumes "s \<le> x * k" and "s' \<le> (s + c) * (1 + u)" and "0 \<le> c" and "1 \<le> k" and "0 \<le> u"
  shows "s' \<le> (x + c) * (k * (1 + u))"
proof -
  have "c * 1 \<le> c * k" using assms(4,3) by (rule mult_left_mono)
  moreover have "(x + c) * k = x * k + c * k" by (rule distrib_right)
  ultimately have "s + c \<le> (x + c) * k" using assms(1) by simp
  then have "(s + c) * (1 + u) \<le> ((x + c) * k) * (1 + u)"
    using assms(5) by (intro mult_right_mono) simp_all
  with assms(2) show ?thesis by (simp add: mult.assoc)
qed

lemma step_down:
  fixes s s' x c k u :: real
  assumes "x * k \<le> s" and "(s + c) * (1 - u) \<le> s'" and "0 \<le> c" and "k \<le> 1" and "u \<le> 1"
  shows "(x + c) * (k * (1 - u)) \<le> s'"
proof -
  have "c * k \<le> c * 1" using assms(4,3) by (rule mult_left_mono)
  moreover have "(x + c) * k = x * k + c * k" by (rule distrib_right)
  ultimately have "(x + c) * k \<le> s + c" using assms(1) by simp
  then have "((x + c) * k) * (1 - u) \<le> (s + c) * (1 - u)"
    using assms(5) by (intro mult_right_mono) simp_all
  with assms(2) show ?thesis by (simp add: mult.assoc)
qed

lemma three_roundings:
  "(1 + 1 / 2 ^ 53) * ((1 + 1 / 2 ^ 53) * (1 + 1 / 2 ^ 53)) \<le> (1 + 4 / 2 ^ 53 :: real)"
  "(1 - 4 / 2 ^ 53 :: real) \<le> (1 - 1 / 2 ^ 53) * ((1 - 1 / 2 ^ 53) * (1 - 1 / 2 ^ 53))"
  by simp_all

lemma total_rounding:
  assumes grid: "on_grid a" "on_grid b" "on_grid c" "on_grid d"
    and nn: "0 \<le> a" "0 \<le> b" "0 \<le> c" "0 \<le> d"
    and total: "js_add (js_add (js_add (Fin a) (Fin b)) (Fin c)) (Fin d) = Fin t"
  shows "on_grid t" and "0 \<le> t"
    and "(a + b + c + d) * (1 - 4 / 2 ^ 53) \<le> t" and "t \<le> (a + b + c + d) * (1 + 4 / 2 ^ 53)"
proof -
  from js_add_FinD [OF total] obtain s2 where
    s2: "js_add (js_add (Fin a) (Fin b)) (Fin c) = Fin s2" and t: "round64 (s2 + d) = Fin t"
    by auto
  from js_add_FinD [OF s2] obtain s1 where
    s1: "js_add (Fin a) (Fin b) = Fin s1" and r2: "round64 (s1 + c) = Fin s2"
    by auto
  from s1 have r1: "round64 (a + b) = Fin s1" by simp
  note e1 = add_rounding [OF grid(1,2) nn(1,2) r1]
  note e2 = add_rounding [OF e1(1) grid(3) e1(2) nn(3) r2]
  note e3 = add_rounding [OF e2(1) grid(4) e2(2) nn(4) t]
  show "on_grid t" by (rule e3(1))
  show "0 \<le> t" by (rule e3(2))
  define u :: real where "u = 1 / 2 ^ 53"
  have u: "0 \<le> u" "u \<le> 1" by (simp_all add: u_def)
  have k: "1 \<le> 1 + u" "1 - u \<le> 1" "1 \<le> (1 + u) * (1 + u)" "(1 - u) * (1 - u) \<le> 1"
    by (simp_all add: u_def)
  have a1: "\<bar>s1 - (a + b)\<bar> \<le> (a + b) * u" using e1(3) by (simp add: u_def)
  have a2: "\<bar>s2 - (s1 + c)\<bar> \<le> (s1 + c) * u" using e2(3) by (simp add: u_def)
  have a3: "\<bar>t - (s2 + d)\<bar> \<le> (s2 + d) * u" using e3(3) by (simp add: u_def)
  note b1 = abs_error_bounds [OF a1] and b2 = abs_error_bounds [OF a2]
    and b3 = abs_error_bounds [OF a3]
  have up2: "s2 \<le> (a + b + c) * ((1 + u) * (1 + u))"
    using step_up [OF b1(1) b2(1) nn(3) k(1) u(1)] .
  have up3: "t \<le> (a + b + c + d) * (((1 + u) * (1 + u)) * (1 + u))"
    using step_up [OF up2 b3(1) nn(4) k(3) u(1)] .
  have dn2: "(a + b + c) * ((1 - u) * (1 - u)) \<le> s2"
    using step_down [OF b1(2) b2(2) nn(3) k(2) u(2)] .
  have dn3: "(a + b + c + d) * (((1 - u) * (1 - u)) * (1 - u)) \<le> t"
    using step_down [OF dn2 b3(2) nn(4) k(4) u(2)] .
  have S: "0 \<le> a + b + c + d" using nn by simp
  have "(a + b + c + d) * (((1 + u) * (1 + u)) * (1 + u)) \<le> (a + b + c + d) * (1 + 4 / 2 ^ 53)"
    using S by (intro mult_left_mono) (simp_all add: u_def)
  with up3 show "t \<le> (a + b + c + d) * (1 + 4 / 2 ^ 53)" by linarith
  have "(a + b + c + d) * (1 - 4 / 2 ^ 53) \<le> (a + b + c + d) * (((1 - u) * (1 - u)) * (1 - u))"
    using S by (intro mult_left_mono) (simp_all add: u_def)
  with dn3 show "(a + b + c + d) * (1 - 4 / 2 ^ 53) \<le> t" by linarith
qed

lemma half_tiny: "(2 :: real) powi (- 1074) / 2 = 2 powi (- 1075)"
proof -
  have "0 \<le> (- 1074 :: int) - (- 1075)" by simp
  from pow2_split [OF this] show ?thesis by simp
qed

lemma tiny_small: "(2 :: real) powi (- 1075) \<le> 1 / 2 ^ 60"
proof -
  have "(2 :: real) powi (- 1075) \<le> 2 powi (- 60)" by (rule pow2_mono) simp
  then show ?thesis by (simp add: power_int_numeral_neg_numeral field_simps)
qed

lemma div_rounding:
  assumes "0 \<le> q" and "q \<le> 2"
  shows "\<exists>r. round64 q = Fin r \<and> 0 \<le> r \<and> r \<le> 2 \<and> on_grid r
           \<and> \<bar>r - q\<bar> \<le> q / 2 ^ 53 + 1 / 2 ^ 60"
proof -
  have "q \<le> 2 powi 1" using assms(2) by (simp add: power_int_def)
  from round64_finite [OF assms(1) this] obtain r where
    r: "round64 q = Fin r" "0 \<le> r" "r \<le> 2 powi 1" by auto
  have r2: "r \<le> 2" using r(3) by (simp add: power_int_def)
  have g: "on_grid r" using r(1) by (rule round64_on_grid)
  have "\<bar>r - q\<bar> \<le> q / 2 ^ 53 + 1 / 2 ^ 60"
  proof (cases "2 powi (- 1022) \<le> \<bar>q\<bar>")
    case True
    from round64_relative [OF r(1) True] assms(1) show ?thesis by simp
  next
    case False
    show ?thesis
    proof (cases "q = 0")
      case True
      with r(1) show ?thesis by simp
    next
      case nz: False
      have "ulp q = 2 powi (- 1074)" using nz False by (intro ulp_subnormal) simp_all
      with round64_error [OF r(1)] have "\<bar>r - q\<bar> \<le> 2 powi (- 1075)"
        by (simp add: half_tiny)
      with tiny_small assms(1) show ?thesis by simp
    qed
  qed
  with r(1,2) r2 g show ?thesis by blast
qed

lemma sum_finite:
  assumes "0 \<le> x" "x \<le> 16"
  shows "\<exists>r. round64 x = Fin r"
proof -
  have "x \<le> 2 powi 4" using assms(2) by (simp add: power_int_def)
  from round64_finite [OF assms(1) this] show ?thesis by auto
qed



text \<open>
  Dividing four non-negative doubles by their computed total: each quotient is a finite
  double between 0 and 2, and the quotients sum to 1 up to rounding.
\<close>

lemma quotient_bounds:
  fixes w S t :: real
  assumes w: "0 \<le> w" "w \<le> S" and t: "0 < t" "S * (1 - 4 / 2 ^ 53) \<le> t"
  shows "0 \<le> w / t" and "w / t \<le> 2"
proof -
  show "0 \<le> w / t" using w(1) t(1) by simp
  have "S \<le> 2 * t" using t(2) w by simp
  with w(2) have "w \<le> 2 * t" by linarith
  then show "w / t \<le> 2" using t(1) by (simp add: pos_divide_le_eq)
qed

lemma ratio_bounds:
  fixes S t :: real
  assumes t: "0 < t" "S * (1 - 4 / 2 ^ 53) \<le> t" "t \<le> S * (1 + 4 / 2 ^ 53)"
  shows "1 - 1 / 10 ^ 15 \<le> S / t" and "S / t \<le> 1 + 1 / 10 ^ 15"
proof -
  have S: "0 < S"
  proof (rule ccontr)
    assume "\<not> 0 < S"
    then have "S * (1 + 4 / 2 ^ 53) \<le> 0" by (simp add: mult_le_0_iff)
    with t(1,3) show False by linarith
  qed
  have "(1 - 1 / 10 ^ 15) * t \<le> S" using t(3) S by simp
  then show "1 - 1 / 10 ^ 15 \<le> S / t" using t(1) by (simp add: pos_le_divide_eq)
  have "S \<le> (1 + 1 / 10 ^ 15) * t" using t(2) S by simp
  then show "S / t \<le> 1 + 1 / 10 ^ 15" using t(1) by (simp add: pos_divide_le_eq)
qed

lemma normalized_rounding:
  assumes grid: "on_grid a" "on_grid b" "on_grid c" "on_grid d"
    and nn: "0 \<le> a" "0 \<le> b" "0 \<le> c" "0 \<le> d"
    and total: "js_add (js_add (js_add (Fin a) (Fin b)) (Fin c)) (Fin d) = Fin t"
    and pos: "0 < t"
  shows "\<exists>x0 x1 x2 x3.
           js_div (Fin a) (Fin t) = Fin x0 \<and> js_div (Fin b) (Fin t) = Fin x1
         \<and> js_div (Fin c) (Fin t) = Fin x2 \<and> js_div (Fin d) (Fin t) = Fin x3
         \<and> on_grid x0 \<and> on_grid x1 \<and> on_grid x2 \<and> on_grid x3
         \<and> 0 \<le> x0 \<and> 0 \<le> x1 \<and> 0 \<le> x2 \<and> 0 \<le> x3
         \<and> x0 \<le> 2 \<and> x1 \<le> 2 \<and> x2 \<le> 2 \<and> x3 \<le> 2
         \<and> \<bar>x0 + x1 + x2 + x3 - 1\<bar> \<le> 1 / 10 ^ 14"
proof -
  define S where "S = a + b + c + d"
  note tr = total_rounding [OF grid nn total, folded S_def]
  have le: "a \<le> S" "b \<le> S" "c \<le> S" "d \<le> S" using nn by (simp_all add: S_def)
  note qa = quotient_bounds [OF nn(1) le(1) pos tr(3)]
  note qb = quotient_bounds [OF nn(2) le(2) pos tr(3)]
  note qc = quotient_bounds [OF nn(3) le(3) pos tr(3)]
  note qd = quotient_bounds [OF nn(4) le(4) pos tr(3)]
  from div_rounding [OF qa] obtain x0 where x0: "round64 (a / t) = Fin x0" "0 \<le> x0" "x0 \<le> 2"
    "on_grid x0" "\<bar>x0 - a / t\<bar> \<le> a / t / 2 ^ 53 + 1 / 2 ^ 60" by blast
  from div_rounding [OF qb] obtain x1 where x1: "round64 (b / t) = Fin x1" "0 \<le> x1" "x1 \<le> 2"
    "on_grid x1" "\<bar>x1 - b / t\<bar> \<le> b / t / 2 ^ 53 + 1 / 2 ^ 60" by blast
  from div_rounding [OF qc] obtain x2 where x2: "round64 (c / t) = Fin x2" "0 \<le> x2" "x2 \<le> 2"
    "on_grid x2" "\<bar>x2 - c / t\<bar> \<le> c / t / 2 ^ 53 + 1 / 2 ^ 60" by blast
  from div_rounding [OF qd] obtain x3 where x3: "round64 (d / t) = Fin x3" "0 \<le> x3" "x3 \<le> 2"
    "on_grid x3" "\<bar>x3 - d / t\<bar> \<le> d / t / 2 ^ 53 + 1 / 2 ^ 60" by blast
  have ne: "t \<noteq> 0" using pos by simp
  have divs: "js_div (Fin a) (Fin t) = Fin x0" "js_div (Fin b) (Fin t) = Fin x1"
    "js_div (Fin c) (Fin t) = Fin x2" "js_div (Fin d) (Fin t) = Fin x3"
    using ne x0(1) x1(1) x2(1) x3(1) by simp_all
  define qs where "qs = a / t + b / t + c / t + d / t"
  have qs: "qs = S / t" by (simp add: qs_def S_def add_divide_distrib)
  note rb = ratio_bounds [OF pos tr(3,4), folded qs]
  have err: "\<bar>(x0 + x1 + x2 + x3) - qs\<bar> \<le> qs / 2 ^ 53 + 4 / 2 ^ 60"
    using x0(5) x1(5) x2(5) x3(5) unfolding qs_def by (simp add: add_divide_distrib)
  have n: "(2 :: real) ^ 53 = 9007199254740992" "(2 :: real) ^ 60 = 1152921504606846976"
    "(10 :: real) ^ 15 = 1000000000000000" "(10 :: real) ^ 14 = 100000000000000"
    by simp_all
  have "\<bar>x0 + x1 + x2 + x3 - 1\<bar> \<le> 1 / 10 ^ 14"
    using err rb unfolding n by linarith
  with divs x0(2,3,4) x1(2,3,4) x2(2,3,4) x3(2,3,4) show ?thesis by blast
qed

lemma normalized_total:
  assumes grid: "on_grid x0" "on_grid x1" "on_grid x2" "on_grid x3"
    and nn: "0 \<le> x0" "0 \<le> x1" "0 \<le> x2" "0 \<le> x3"
    and le: "x0 \<le> 2" "x1 \<le> 2" "x2 \<le> 2" "x3 \<le> 2"
    and near: "\<bar>x0 + x1 + x2 + x3 - 1\<bar> \<le> 1 / 10 ^ 14"
  shows "\<exists>s. js_add (js_add (js_add (Fin x0) (Fin x1)) (Fin x2)) (Fin x3) = Fin s
           \<and> \<bar>s - 1\<bar> \<le> 1 / 10 ^ 13"
proof -
  have p: "(2 :: real) powi 2 = 4" "(2 :: real) powi 3 = 8" "(2 :: real) powi 4 = 16"
    by (simp_all add: power_int_numeral)
  have "0 \<le> x0 + x1" "x0 + x1 \<le> 2 powi 2" using nn le by (simp_all add: p)
  from round64_finite [OF this] obtain s1 where
    s1: "round64 (x0 + x1) = Fin s1" "0 \<le> s1" "s1 \<le> 4" by (auto simp: p)
  have "0 \<le> s1 + x2" "s1 + x2 \<le> 2 powi 3" using s1 nn le by (simp_all add: p)
  from round64_finite [OF this] obtain s2 where
    s2: "round64 (s1 + x2) = Fin s2" "0 \<le> s2" "s2 \<le> 8" by (auto simp: p)
  have "0 \<le> s2 + x3" "s2 + x3 \<le> 2 powi 4" using s2 nn le by (simp_all add: p)
  from round64_finite [OF this] obtain s where
    s: "round64 (s2 + x3) = Fin s" by auto
  have total: "js_add (js_add (js_add (Fin x0) (Fin x1)) (Fin x2)) (Fin x3) = Fin s"
    by (simp only: js_add.simps s1(1) s2(1) s)
  note tr = total_rounding [OF grid nn total]
  define X where "X = x0 + x1 + x2 + x3"
  have n: "(10 :: real) ^ 14 = 100000000000000" "(10 :: real) ^ 13 = 10000000000000"
    by simp_all
  have e: "X * (1 - 4 / 2 ^ 53) = X - X / 2251799813685248"
    "X * (1 + 4 / 2 ^ 53) = X + X / 2251799813685248"
    by (simp_all add: algebra_simps)
  have "\<bar>s - 1\<bar> \<le> 1 / 10 ^ 13"
    using tr(3,4) near unfolding X_def [symmetric] e n by linarith
  with total show ?thesis by blast
qed

text \<open>Values that rounding leaves as they are, and values beyond the largest double.\<close>

lemma round64_exact:
  assumes x: "x = of_int n * 2 powi k" and n: "\<bar>n\<bar> < 2 ^ 53" and k: "- 1074 \<le> k"
    and fin: "\<bar>x\<bar> < huge"
  shows "round64 x = Fin x"
proof (cases "x = 0")
  case True
  then show ?thesis by simp
next
  case False
  define e where "e = max (binade \<bar>x\<bar>) (- 1022)"
  have u: "ulp x = 2 powi (e - 52)" by (simp add: ulp_def e_def)
  have "(of_int \<bar>n\<bar> :: real) < of_int (2 ^ 53)" using n by (simp only: of_int_less_iff)
  then have "\<bar>x\<bar> < 2 ^ 53 * 2 powi k" unfolding x by (simp add: abs_mult)
  also have "\<dots> = 2 powi (53 + k)" by (simp add: power_int_add power_int_numeral)
  finally have "binade \<bar>x\<bar> < 53 + k" using False by (intro binade_abs_less)
  then have "0 \<le> k - (e - 52)" using k by (simp add: e_def)
  from pow2_split [OF this] have p: "2 powi k = 2 ^ nat (k - (e - 52)) * ulp x"
    by (simp only: u)
  have "of_int n * 2 powi k = of_int (n * 2 ^ nat (k - (e - 52))) * ulp x"
    by (subst p) simp
  with x have xu: "x = of_int (n * 2 ^ nat (k - (e - 52))) * ulp x" by simp
  have q: "x / ulp x = of_int (n * 2 ^ nat (k - (e - 52)))" by (subst xu) simp
  have "rounded x = of_int (n * 2 ^ nat (k - (e - 52))) * ulp x"
    by (simp only: rounded_def q half_even_of_int)
  then have "rounded x = x" using xu by simp
  with round64_Fin_rounded [OF False] fin show ?thesis by simp
qed

lemma round64_overflow:
  assumes "huge \<le> x"
  shows "round64 x = PosInf"
proof -
  have "2 powi 1024 \<le> x" using assms by (simp add: huge_def)
  then have "2 powi 1024 \<le> rounded x" by (rule rounded_ge_pow) simp
  then have h: "huge \<le> rounded x" by (simp add: huge_def)
  have "x \<noteq> 0" using assms huge_pos by linarith
  then show ?thesis using h by (simp add: round64_rounded)
qed

lemma less_huge: "\<bar>x\<bar> \<le> 2 ^ 1000 \<Longrightarrow> \<bar>x\<bar> < huge"
proof -
  assume "\<bar>x\<bar> \<le> 2 ^ 1000"
  moreover have "(2 :: real) ^ 1000 = 2 powi 1000" by (simp add: power_int_numeral)
  moreover have "(2 :: real) powi 1000 < huge" by (rule pow_less_huge) simp
  ultimately show ?thesis by linarith
qed

lemma is_double_dyadic:
  assumes "x = of_int n * 2 powi k" and "\<bar>n\<bar> < 2 ^ 53" and "- 1074 \<le> k" and "\<bar>x\<bar> \<le> 2 ^ 1000"
  shows "is_double x"
  unfolding is_double_def using assms(1,2,3) less_huge [OF assms(4)] by (rule round64_exact)

lemma is_double_examples:
  "is_double 0" "is_double 1" "is_double 2" "is_double (1 / 2)" "is_double (1 / 4)" "is_double 50"
  "is_double (3 / 4)" "is_double (1 / 128)" "is_double 100" "is_double (201 / 4)" "is_double (201 / 2)"
  "is_double (401 / 4)"
proof -
  show "is_double 0" by (simp add: is_double_def)
  show "is_double 1" by (rule is_double_dyadic [of _ 1 0]) simp_all
  show "is_double 2" by (rule is_double_dyadic [of _ 2 0]) simp_all
  show "is_double (1 / 2)"
    by (rule is_double_dyadic [of _ 1 "- 1"]) (simp_all add: power_int_numeral_neg_numeral power_int_minus_divide)
  show "is_double (1 / 4)"
    by (rule is_double_dyadic [of _ 1 "- 2"]) (simp_all add: power_int_numeral_neg_numeral)
  show "is_double 50" by (rule is_double_dyadic [of _ 50 0]) simp_all
  show "is_double (3 / 4)"
    by (rule is_double_dyadic [of _ 3 "- 2"]) (simp_all add: power_int_numeral_neg_numeral)
  show "is_double (1 / 128)"
    by (rule is_double_dyadic [of _ 1 "- 7"]) (simp_all add: power_int_numeral_neg_numeral)
  show "is_double 100" by (rule is_double_dyadic [of _ 100 0]) simp_all
  show "is_double (201 / 4)"
    by (rule is_double_dyadic [of _ 201 "- 2"]) (simp_all add: power_int_numeral_neg_numeral)
  show "is_double (201 / 2)"
    by (rule is_double_dyadic [of _ 201 "- 1"]) (simp_all add: power_int_numeral_neg_numeral power_int_minus_divide)
  show "is_double (401 / 4)"
    by (rule is_double_dyadic [of _ 401 "- 2"]) (simp_all add: power_int_numeral_neg_numeral)
qed



section \<open>Properties of the dimension validator\<close>

lemma valid_component_iff:
  "valid_component v = (\<exists>x. v = JNumber x \<and> x \<noteq> NaN)"
  by (cases v; simp add: valid_component_def; (rename_tac x, case_tac x; simp)?)

lemma js_typeof_number_iff: "(js_typeof v = ''number'') = (\<exists>x. v = JNumber x)"
  by (cases v) simp_all

lemma js_every_iff: "js_every p xs = (\<forall>v. Some v \<in> set xs \<longrightarrow> p v)"
  by (auto simp: js_every_def list_all_iff split: option.splits)

text \<open>
  Claim C5 says, for every input, that an array of the expected length with a component
  that is not a number fails with INVALID_EMBEDDING_VALUES. The third check goes through
  the array with \<^verbatim>\<open>every\<close>, which skips the holes of a sparse array: the array
  \<^verbatim>\<open>[1, , 3]\<close> has length 3, its component at index 1 reads \<^verbatim>\<open>undefined\<close>, which is
  not a number, and the validator returns normally.
\<close>

theorem validateEmbeddingDimensions_sparse_counterexample:
  "js_index [Some (JNumber (Fin 1)), None, Some (JNumber (Fin 3))] 1 = JUndefined
   \<and> js_typeof (js_index [Some (JNumber (Fin 1)), None, Some (JNumber (Fin 3))] 1) \<noteq> ''number''
   \<and> validateEmbeddingDimensions (JArray [Some (JNumber (Fin 1)), None, Some (JNumber (Fin 3))]) (Fin 3)
       = Inr ()"
  by (simp add: js_index_def js_every_def valid_component_def)

text \<open>
  Claim C5, amended. The validator is a cascade of three checks: a value that is not an
  array fails with INVALID_EMBEDDING_TYPE; an array whose length is not the expected
  dimensionality fails with DIMENSION_MISMATCH; an array of the right length that holds
  an element that is not a number or is NaN fails with INVALID_EMBEDDING_VALUES; every
  other array is accepted and the function returns normally. The holes of a sparse array
  count for the length and are not looked at by the third check.
\<close>

theorem validateEmbeddingDimensions_cascade:
  "(\<not> js_isArray v \<longrightarrow>
      embedding_error_code (validateEmbeddingDimensions v d) = Some ''INVALID_EMBEDDING_TYPE'')
   \<and> (\<not> js_strict_eq (Fin (real (length xs1))) d1 \<longrightarrow>
      embedding_error_code (validateEmbeddingDimensions (JArray xs1) d1) = Some ''DIMENSION_MISMATCH'')
   \<and> (js_strict_eq (Fin (real (length xs2))) d2
        \<and> (\<exists>x. Some x \<in> set xs2 \<and> (js_typeof x \<noteq> ''number'' \<or> x = JNumber NaN)) \<longrightarrow>
      embedding_error_code (validateEmbeddingDimensions (JArray xs2) d2) = Some ''INVALID_EMBEDDING_VALUES'')
   \<and> (js_strict_eq (Fin (real (length xs3))) d3
        \<and> (\<forall>x. Some x \<in> set xs3 \<longrightarrow> js_typeof x = ''number'' \<and> x \<noteq> JNumber NaN) \<longrightarrow>
      validateEmbeddingDimensions (JArray xs3) d3 = Inr ())"
proof (intro conjI impI)
  assume "\<not> js_isArray v"
  then show "embedding_error_code (validateEmbeddingDimensions v d) = Some ''INVALID_EMBEDDING_TYPE''"
    by (cases v) simp_all
next
  assume "\<not> js_strict_eq (Fin (real (length xs1))) d1"
  then show "embedding_error_code (validateEmbeddingDimensions (JArray xs1) d1) = Some ''DIMENSION_MISMATCH''"
    by simp
next
  assume a: "js_strict_eq (Fin (real (length xs2))) d2
        \<and> (\<exists>x. Some x \<in> set xs2 \<and> (js_typeof x \<noteq> ''number'' \<or> x = JNumber NaN))"
  then have "\<not> js_every valid_component xs2"
    by (auto simp: js_every_iff valid_component_iff js_typeof_number_iff)
  with a show "embedding_error_code (validateEmbeddingDimensions (JArray xs2) d2) = Some ''INVALID_EMBEDDING_VALUES''"
    by simp
next
  assume a: "js_strict_eq (Fin (real (length xs3))) d3
        \<and> (\<forall>x. Some x \<in> set xs3 \<longrightarrow> js_typeof x = ''number'' \<and> x \<noteq> JNumber NaN)"
  then have "js_every valid_component xs3"
    by (auto simp: js_every_iff valid_component_iff js_typeof_number_iff)
  with a show "validateEmbeddingDimensions (JArray xs3) d3 = Inr ()"
    by simp
qed

theorem validateEmbeddingDimensions_cascade_witness:
  "embedding_error_code (validateEmbeddingDimensions (JString ''0.5,0.25'') (Fin 2)) = Some ''INVALID_EMBEDDING_TYPE''
   \<and> embedding_error_code (validateEmbeddingDimensions (JArray [Some (JNumber (Fin 1)), Some (JNumber (Fin 2))]) (Fin 3)) = Some ''DIMENSION_MISMATCH''
   \<and> embedding_error_code (validateEmbeddingDimensions (JArray [Some (JNumber (Fin 1)), Some (JString ''x'')]) (Fin 2)) = Some ''INVALID_EMBEDDING_VALUES''
   \<and> validateEmbeddingDimensions (JArray [Some (JNumber (Fin 1)), None]) (Fin 2) = Inr ()"
  using validateEmbeddingDimensions_cascade
    [of "JString ''0.5,0.25''" "Fin 2" "[Some (JNumber (Fin 1)), Some (JNumber (Fin 2))]" "Fin 3"
        "[Some (JNumber (Fin 1)), Some (JString ''x'')]" "Fin 2" "[Some (JNumber (Fin 1)), None]" "Fin 2"]
  by (simp add: js_every_def valid_component_def)

text \<open>
  Claim C9 says that an array of the expected length whose components are all numbers
  fails validation when one of them is Infinity or -Infinity. The check of the code is
  \<^verbatim>\<open>typeof val === 'number' && !isNaN(val)\<close>, which both infinities pass: the array
  below is accepted.
\<close>

theorem validateEmbeddingDimensions_infinity_counterexample:
  "validateEmbeddingDimensions
     (JArray [Some (JNumber (Fin 1)), Some (JNumber PosInf), Some (JNumber NegInf)]) (Fin 3) = Inr ()"
  by (simp add: js_every_def valid_component_def)

text \<open>
  Claim C9, amended. An array of the expected length is accepted exactly when every
  element it holds is a number other than NaN; the holes of a sparse array are skipped.
  So for an array of the expected length whose elements are all numbers, validation fails
  exactly when one of them is NaN, and an element that is Infinity or -Infinity does not
  make it fail.
\<close>

theorem validateEmbeddingDimensions_accepts_iff_no_NaN:
  assumes "js_strict_eq (Fin (real (length xs))) d"
  shows "(validateEmbeddingDimensions (JArray xs) d = Inr ())
           = (\<forall>v. Some v \<in> set xs \<longrightarrow> (\<exists>x. v = JNumber x \<and> x \<noteq> NaN))
       \<and> ((\<forall>v. Some v \<in> set xs \<longrightarrow> js_typeof v = ''number'') \<longrightarrow>
            (validateEmbeddingDimensions (JArray xs) d \<noteq> Inr ()) = (Some (JNumber NaN) \<in> set xs))"
proof -
  have every: "js_every valid_component xs = (\<forall>v. Some v \<in> set xs \<longrightarrow> (\<exists>x. v = JNumber x \<and> x \<noteq> NaN))"
    by (simp add: js_every_iff valid_component_iff)
  have first: "(validateEmbeddingDimensions (JArray xs) d = Inr ())
           = (\<forall>v. Some v \<in> set xs \<longrightarrow> (\<exists>x. v = JNumber x \<and> x \<noteq> NaN))"
    using assms by (simp add: every)
  have second: "(validateEmbeddingDimensions (JArray xs) d \<noteq> Inr ()) = (Some (JNumber NaN) \<in> set xs)"
    if "\<forall>v. Some v \<in> set xs \<longrightarrow> js_typeof v = ''number''"
    unfolding first using that by (auto simp: js_typeof_number_iff)
  from first second show ?thesis by blast
qed

theorem validateEmbeddingDimensions_accepts_iff_no_NaN_witness:
  "validateEmbeddingDimensions (JArray [Some (JNumber PosInf), Some (JNumber (Fin 2))]) (Fin 2) = Inr ()
   \<and> validateEmbeddingDimensions (JArray [Some (JNumber NaN), Some (JNumber (Fin 2))]) (Fin 2) \<noteq> Inr ()
   \<and> validateEmbeddingDimensions (JArray [None, Some (JNumber NegInf)]) (Fin 2) = Inr ()
   \<and> validateEmbeddingDimensions (JArray [Some (JString ''1''), Some (JNumber (Fin 2))]) (Fin 2) \<noteq> Inr ()"
proof -
  have len: "js_strict_eq (Fin (real (length [Some (JNumber PosInf), Some (JNumber (Fin 2))]))) (Fin 2)"
    "js_strict_eq (Fin (real (length [Some (JNumber NaN), Some (JNumber (Fin 2))]))) (Fin 2)"
    "js_strict_eq (Fin (real (length [None, Some (JNumber NegInf)]))) (Fin 2)"
    "js_strict_eq (Fin (real (length [Some (JString ''1''), Some (JNumber (Fin 2))]))) (Fin 2)"
    by simp_all
  have "validateEmbeddingDimensions (JArray [Some (JNumber PosInf), Some (JNumber (Fin 2))]) (Fin 2) = Inr ()"
    using validateEmbeddingDimensions_accepts_iff_no_NaN [OF len(1), THEN conjunct1] by auto
  moreover have "validateEmbeddingDimensions (JArray [Some (JNumber NaN), Some (JNumber (Fin 2))]) (Fin 2) \<noteq> Inr ()"
    using validateEmbeddingDimensions_accepts_iff_no_NaN [OF len(2), THEN conjunct2] by auto
  moreover have "validateEmbeddingDimensions (JArray [None, Some (JNumber NegInf)]) (Fin 2) = Inr ()"
    using validateEmbeddingDimensions_accepts_iff_no_NaN [OF len(3), THEN conjunct1] by auto
  moreover have "validateEmbeddingDimensions (JArray [Some (JString ''1''), Some (JNumber (Fin 2))]) (Fin 2) \<noteq> Inr ()"
    using validateEmbeddingDimensions_accepts_iff_no_NaN [OF len(4), THEN conjunct1] by auto
  ultimately show ?thesis by blast
qed

section \<open>Properties of the retry executor\<close>

lemma callback_returns_nth:
  "callback_returns options errs m \<Longrightarrow> onRetry options = Some cb \<Longrightarrow> k < m
     \<Longrightarrow> cb (Suc k) (errs k) = None"
  by (simp add: callback_returns_def list_all_iff)

lemma withRetry_loop_run:
  assumes m: "opt_maxRetries options = int m"
    and cb: "callback_returns options errs m"
    and fails: "\<forall>k<m. operation k = Inl (errs k)"
  shows "a \<le> m \<Longrightarrow> withRetry_loop operation options a lastError =
           (operation m, concat (map (retry_round options errs) [a..<m]) @ [Attempt m])"
proof (induction "m - a" arbitrary: a lastError)
  case 0
  then have "a = m" by simp
  then show ?case using m
    by (cases "operation m") simp_all
next
  case (Suc n)
  then have lt: "a < m" and le: "Suc a \<le> m" and n: "n = m - Suc a" by simp_all
  have op: "operation a = Inl (errs a)" using fails lt by simp
  have up: "[a..<m] = a # [Suc a..<m]" using lt by (simp add: upt_conv_Cons)
  have IH: "withRetry_loop operation options (Suc a) (Some (errs a)) =
        (operation m, concat (map (retry_round options errs) [Suc a..<m]) @ [Attempt m])"
    using Suc.hyps(1) [OF n le] .
  show ?case
  proof (cases "onRetry options")
    case None
    then show ?thesis using m lt op IH up
      by (simp add: retry_round_def)
  next
    case (Some callback)
    have "callback (Suc a) (errs a) = None"
      using callback_returns_nth [OF cb Some lt] .
    then show ?thesis using m lt op IH up Some
      by (simp add: retry_round_def)
  qed
qed

lemma filter_is_Attempt_round:
  "length (filter is_Attempt (concat (map (retry_round options errs) ks))) = length ks"
  by (induction ks) (auto simp: retry_round_def split: option.splits)

lemma filter_is_OnRetry_round:
  "filter is_OnRetry (concat (map (retry_round options errs) ks)) =
     (case onRetry options of None \<Rightarrow> [] | Some cb \<Rightarrow> map (\<lambda>k. OnRetry (k + 1) (errs k)) ks)"
  by (induction ks) (auto simp: retry_round_def split: option.splits)

text \<open>
  Claim C3 says, for every wrapped operation, that \<open>maxRetries\<close> failures followed by a
  success give the success after \<open>maxRetries\<close> callback invocations, and that an
  operation failing at every attempt is attempted \<open>maxRetries + 1\<close> times. A callback
  that throws ends the executor at once: with the callback of
  \<^verbatim>\<open>withConditionalRetry\<close> and an error that is not retryable, an operation that always
  fails is attempted once, not four times, under a budget of three retries.
\<close>

theorem withRetry_throwing_callback_counterexample:
  "withRetry always_rejects
     \<lparr>maxRetries = Some 3, initialDelayMs = None, exponentialBackoff = None, maxDelayMs = None,
      onRetry = Some (conditional_callback never_retryable)\<rparr>
   = (Inl (OtherError [Txt ''bad request'']),
      [Attempt 0, OnRetry 1 (OtherError [Txt ''bad request''])])
   \<and> length (filter is_Attempt (snd (withRetry always_rejects
     \<lparr>maxRetries = Some 3, initialDelayMs = None, exponentialBackoff = None, maxDelayMs = None,
      onRetry = Some (conditional_callback never_retryable)\<rparr>))) \<noteq> 3 + 1"
  by (simp add: withRetry_def opt_maxRetries_def always_rejects_def conditional_callback_def
      never_retryable_def)

lemma callback_returns_less:
  "callback_returns options errs j \<Longrightarrow> onRetry options = Some cb \<Longrightarrow> k < j
     \<Longrightarrow> cb (Suc k) (errs k) = None"
  by (simp add: callback_returns_def list_all_iff)

lemma withRetry_loop_thrown:
  assumes m: "opt_maxRetries options = int m" and j: "j < m"
    and cb: "onRetry options = Some callback"
    and fails: "\<forall>k\<le>j. operation k = Inl (errs k)"
    and returns: "callback_returns options errs j"
    and throws: "callback (j + 1) (errs j) = Some thrown"
  shows "a \<le> j \<Longrightarrow> withRetry_loop operation options a lastError =
           (Inl thrown, concat (map (retry_round options errs) [a..<j])
                          @ [Attempt j, OnRetry (j + 1) (errs j)])"
proof (induction "j - a" arbitrary: a lastError)
  case 0
  then have "a = j" by simp
  then show ?case using m j cb fails throws
    by (subst withRetry_loop.simps) simp
next
  case (Suc n)
  then have lt: "a < j" and le: "Suc a \<le> j" and n: "n = j - Suc a" by simp_all
  have op: "operation a = Inl (errs a)" using fails lt by simp
  have up: "[a..<j] = a # [Suc a..<j]" using lt by (simp add: upt_conv_Cons)
  have ok: "callback (Suc a) (errs a) = None"
    using callback_returns_less [OF returns cb lt] .
  have IH: "withRetry_loop operation options (Suc a) (Some (errs a)) =
        (Inl thrown, concat (map (retry_round options errs) [Suc a..<j])
                       @ [Attempt j, OnRetry (j + 1) (errs j)])"
    using Suc.hyps(1) [OF n le] .
  show ?case
    using m j lt op IH up cb ok by (subst withRetry_loop.simps) (simp add: retry_round_def)
qed

text \<open>
  Claim C3, amended. Let the budget \<open>maxRetries\<close> be a natural number \<open>m\<close>. If the first
  \<open>m\<close> invocations of the operation fail and the callback, when one is given, returns
  normally at each of these failures, then the executor makes exactly \<open>m + 1\<close> attempts,
  one after the other, and ends with the outcome of the last one: the value it resolves
  to, or the very error it rejects with. The callback is invoked exactly \<open>m\<close> times, the
  \<open>k\<close>-th time with the number \<open>k\<close> and the error of the \<open>k\<close>-th failure, each invocation
  followed by the backoff sleep. If instead the callback throws at a failure before the
  budget is used up (at attempt \<open>j < m\<close>, after returning normally at the failures before
  it), the executor ends there: it raises the value the callback threw, and attempt \<open>j\<close> is
  the last attempt it has made.
\<close>

theorem withRetry_budget:
  assumes "opt_maxRetries options = int m"
  shows "(callback_returns options errs m \<and> (\<forall>k<m. operation k = Inl (errs k)) \<longrightarrow>
           withRetry operation options =
             (operation m, concat (map (retry_round options errs) [0..<m]) @ [Attempt m])
           \<and> length (filter is_Attempt (snd (withRetry operation options))) = m + 1
           \<and> filter is_OnRetry (snd (withRetry operation options)) =
               (case onRetry options of None \<Rightarrow> []
                | Some callback \<Rightarrow> map (\<lambda>k. OnRetry (k + 1) (errs k)) [0..<m]))
       \<and> (\<forall>j callback thrown.
             j < m \<and> onRetry options = Some callback \<and> (\<forall>k\<le>j. operation k = Inl (errs k))
             \<and> callback_returns options errs j \<and> callback (j + 1) (errs j) = Some thrown \<longrightarrow>
             withRetry operation options =
               (Inl thrown, concat (map (retry_round options errs) [0..<j])
                              @ [Attempt j, OnRetry (j + 1) (errs j)])
             \<and> length (filter is_Attempt (snd (withRetry operation options))) = j + 1)"
proof (intro conjI allI impI)
  assume a: "callback_returns options errs m \<and> (\<forall>k<m. operation k = Inl (errs k))"
  have run: "withRetry operation options =
           (operation m, concat (map (retry_round options errs) [0..<m]) @ [Attempt m])"
    unfolding withRetry_def
    using withRetry_loop_run [OF assms a [THEN conjunct1] a [THEN conjunct2], of 0 None] by simp
  show "withRetry operation options =
           (operation m, concat (map (retry_round options errs) [0..<m]) @ [Attempt m])"
    by (rule run)
  show "length (filter is_Attempt (snd (withRetry operation options))) = m + 1"
    by (simp add: run filter_is_Attempt_round)
  show "filter is_OnRetry (snd (withRetry operation options)) =
               (case onRetry options of None \<Rightarrow> []
                | Some callback \<Rightarrow> map (\<lambda>k. OnRetry (k + 1) (errs k)) [0..<m])"
    by (simp add: run filter_is_OnRetry_round split: option.splits)
next
  fix j callback thrown
  assume b: "j < m \<and> onRetry options = Some callback \<and> (\<forall>k\<le>j. operation k = Inl (errs k))
             \<and> callback_returns options errs j \<and> callback (j + 1) (errs j) = Some thrown"
  then have j: "j < m" and cb: "onRetry options = Some callback"
    and fails: "\<forall>k\<le>j. operation k = Inl (errs k)"
    and returns: "callback_returns options errs j"
    and throws: "callback (j + 1) (errs j) = Some thrown"
    by blast+
  have run: "withRetry operation options =
               (Inl thrown, concat (map (retry_round options errs) [0..<j])
                              @ [Attempt j, OnRetry (j + 1) (errs j)])"
    unfolding withRetry_def
    using withRetry_loop_thrown [OF assms j cb fails returns throws, of 0 None] by simp
  show "withRetry operation options =
               (Inl thrown, concat (map (retry_round options errs) [0..<j])
                              @ [Attempt j, OnRetry (j + 1) (errs j)])"
    by (rule run)
  show "length (filter is_Attempt (snd (withRetry operation options))) = j + 1"
    by (simp add: run filter_is_Attempt_round)
qed

lemma upt_0_3: "[0..<3] = [0, 1, 2]"
  by (simp add: numeral_3_eq_3 numeral_2_eq_2 upt_conv_Cons)

theorem withRetry_budget_witness:
  "fst (withRetry (flaky 3) manager_retry_options) = Inr ''done''
   \<and> length (filter is_Attempt (snd (withRetry (flaky 3) manager_retry_options))) = 4
   \<and> filter is_OnRetry (snd (withRetry (flaky 3) manager_retry_options)) =
       [OnRetry 1 (timeouts 0), OnRetry 2 (timeouts 1), OnRetry 3 (timeouts 2)]
   \<and> fst (withRetry (flaky 4) manager_retry_options) = Inl (timeouts 3)
   \<and> length (filter is_Attempt (snd (withRetry (flaky 4) manager_retry_options))) = 4
   \<and> fst (withRetry (flaky 4) (manager_retry_options\<lparr>onRetry := Some (throws_at 2)\<rparr>))
       = Inl (OtherError [Txt ''stop''])
   \<and> length (filter is_Attempt
       (snd (withRetry (flaky 4) (manager_retry_options\<lparr>onRetry := Some (throws_at 2)\<rparr>)))) = 2"
proof -
  have m: "opt_maxRetries manager_retry_options = int 3"
    by (simp add: manager_retry_options_def opt_maxRetries_def)
  have cb: "callback_returns manager_retry_options timeouts 3"
    by (simp add: manager_retry_options_def callback_returns_def logger_warn_def list_all_iff)
  have f3: "\<forall>k<3. flaky 3 k = Inl (timeouts k)"
    by (simp add: flaky_def timeouts_def)
  have f4: "\<forall>k<3. flaky 4 k = Inl (timeouts k)"
    by (simp add: flaky_def timeouts_def)
  have o: "onRetry manager_retry_options = Some logger_warn"
    by (simp add: manager_retry_options_def)
  note w3 = withRetry_budget [OF m, where errs = timeouts and operation = "flaky 3",
      THEN conjunct1, rule_format, OF conjI, OF cb f3]
  note w4 = withRetry_budget [OF m, where errs = timeouts and operation = "flaky 4",
      THEN conjunct1, rule_format, OF conjI, OF cb f4]
  have v3: "flaky 3 3 = Inr ''done''" and v4: "flaky 4 3 = Inl (timeouts 3)"
    by (simp_all add: flaky_def timeouts_def)
  have "fst (withRetry (flaky 3) manager_retry_options) = Inr ''done''"
    using w3 [THEN conjunct1] by (simp add: v3)
  moreover have "length (filter is_Attempt (snd (withRetry (flaky 3) manager_retry_options))) = 4"
    using w3 [THEN conjunct2, THEN conjunct1] by simp
  moreover have "filter is_OnRetry (snd (withRetry (flaky 3) manager_retry_options)) =
       [OnRetry 1 (timeouts 0), OnRetry 2 (timeouts 1), OnRetry 3 (timeouts 2)]"
    using w3 [THEN conjunct2, THEN conjunct2] by (simp add: o upt_0_3)
  moreover have "fst (withRetry (flaky 4) manager_retry_options) = Inl (timeouts 3)"
    using w4 [THEN conjunct1] by (simp add: v4)
  moreover have "length (filter is_Attempt (snd (withRetry (flaky 4) manager_retry_options))) = 4"
    using w4 [THEN conjunct2, THEN conjunct1] by simp
  moreover have "fst (withRetry (flaky 4) (manager_retry_options\<lparr>onRetry := Some (throws_at 2)\<rparr>))
       = Inl (OtherError [Txt ''stop''])
   \<and> length (filter is_Attempt
       (snd (withRetry (flaky 4) (manager_retry_options\<lparr>onRetry := Some (throws_at 2)\<rparr>)))) = 2"
  proof -
    define opts where "opts = manager_retry_options\<lparr>onRetry := Some (throws_at 2)\<rparr>"
    have mt: "opt_maxRetries opts = int 3"
      by (simp add: opts_def manager_retry_options_def opt_maxRetries_def)
    have h: "1 < (3 :: nat) \<and> onRetry opts = Some (throws_at 2)
        \<and> (\<forall>k\<le>1. flaky 4 k = Inl (timeouts k))
        \<and> callback_returns opts timeouts 1
        \<and> throws_at 2 (1 + 1) (timeouts 1) = Some (OtherError [Txt ''stop''])"
      by (simp add: opts_def flaky_def timeouts_def callback_returns_def throws_at_def)
    note t = withRetry_budget [OF mt, where errs = timeouts and operation = "flaky 4",
        THEN conjunct2, rule_format, OF h]
    have "fst (withRetry (flaky 4) opts) = Inl (OtherError [Txt ''stop''])"
      using t [THEN conjunct1] by simp
    moreover have "length (filter is_Attempt (snd (withRetry (flaky 4) opts))) = 2"
      using t [THEN conjunct2] by simp
    ultimately show ?thesis unfolding opts_def by blast
  qed
  ultimately show ?thesis by simp
qed


section \<open>Properties of the search manager\<close>

lemma withRetry_first_attempt:
  "0 \<le> opt_maxRetries options \<Longrightarrow> \<exists>rest. snd (withRetry operation options) = Attempt 0 # rest"
  unfolding withRetry_def
  by (subst withRetry_loop.simps) (auto split: sum.splits option.splits simp: apsnd_def map_prod_def split_beta)

lemma manager_budget: "opt_maxRetries manager_retry_options = 3"
  by (simp add: manager_retry_options_def opt_maxRetries_def)

lemma set_rpc_calls_retried:
  "set (rpc_calls (retried_rpc client failed unexpected call logs)) = {call}"
proof -
  obtain r ev where w: "withRetry (\<lambda>k. rpc_result failed (client k call)) manager_retry_options = (r, ev)"
    by (cases "withRetry (\<lambda>k. rpc_result failed (client k call)) manager_retry_options")
  from withRetry_first_attempt [of manager_retry_options "\<lambda>k. rpc_result failed (client k call)"]
  obtain rest where "ev = Attempt 0 # rest"
    using w by (auto simp: manager_budget)
  then show ?thesis
    by (auto simp: retried_rpc_def w)
qed

lemma info_logs_retried: "info_logs (retried_rpc client failed unexpected call logs) = logs"
  by (simp add: retried_rpc_def split: prod.splits)

lemma length_providedWeights: "length (providedWeights options) = 4"
  by (simp add: providedWeights_def)

lemma length_normalizedWeights: "length (normalizedWeights options) = 4"
  by (simp add: normalizedWeights_def length_providedWeights)

lemma call_weights_weighted_params:
  "call_weights (Rpc_match_documents_weighted (weighted_params options)) = normalizedWeights options"
  by (simp add: weighted_params_def normalizedWeights_def providedWeights_def)

lemma searchWeighted_calls:
  "set (rpc_calls (searchWeighted client options ed)) =
     (if weighted_validate options ed = Inr ()
      then {Rpc_match_documents_weighted (weighted_params options)} else {})"
  by (cases "weighted_validate options ed")
     (simp_all add: searchWeighted_def set_rpc_calls_retried)

lemma search_calls:
  "set (rpc_calls (search client options ed)) =
     (if search_validate options ed = Inr ()
      then {Rpc_match_documents (search_params options)} else {})"
  by (cases "search_validate options ed")
     (simp_all add: search_def set_rpc_calls_retried)

lemma dispatched_weights:
  "call \<in> set (rpc_calls (searchWeighted client options ed)) \<Longrightarrow>
     call_weights call = normalizedWeights options"
  by (simp add: searchWeighted_calls call_weights_weighted_params split: if_splits
      del: call_weights.simps)

lemma totalWeight_total: "totalWeight options = js_total (providedWeights options)"
  by (simp add: totalWeight_def js_total_def)

lemma js_total_exact:
  "is_double (a + b) \<Longrightarrow> is_double (a + b + c) \<Longrightarrow> is_double (a + b + c + d) \<Longrightarrow>
     js_total [Fin a, Fin b, Fin c, Fin d] = Fin (a + b + c + d)"
  by (simp add: js_total_def is_double_def)

lemma totalWeight_exact:
  "providedWeights options = [Fin a, Fin b, Fin c, Fin d] \<Longrightarrow>
   is_double (a + b) \<Longrightarrow> is_double (a + b + c) \<Longrightarrow> is_double (a + b + c + d) \<Longrightarrow>
     totalWeight options = Fin (a + b + c + d)"
  by (simp add: totalWeight_total js_total_exact)

lemma totalWeight_rounded: "totalWeight options = Fin t \<Longrightarrow> \<exists>x. round64 x = Fin t"
  unfolding totalWeight_def by (blast dest: js_add_FinD)

lemma js_sub_one: "js_sub (Fin t) (Fin 1) = round64 (t - 1)"
  by (simp add: js_sub_def)

lemma needs_within: "\<bar>t - 1\<bar> \<le> 1 / 100 \<Longrightarrow> \<not> needs_normalizing (Fin t)"
  unfolding needs_normalizing_def js_sub_one round64_cent by (rule guard_within)

lemma needs_beyond: "round64 x = Fin t \<Longrightarrow> 1 / 100 < \<bar>t - 1\<bar> \<Longrightarrow> needs_normalizing (Fin t)"
  unfolding needs_normalizing_def js_sub_one round64_cent by (rule guard_beyond)

lemma needs_normalizing_total:
  assumes "totalWeight options = Fin t"
  shows "needs_normalizing (totalWeight options) = (1 / 100 < \<bar>t - 1\<bar>)"
proof (cases "1 / 100 < \<bar>t - 1\<bar>")
  case True
  from totalWeight_rounded [OF assms] obtain x where "round64 x = Fin t" ..
  from needs_beyond [OF this True] True show ?thesis by (simp add: assms)
next
  case False
  then have "\<bar>t - 1\<bar> \<le> 1 / 100" by simp
  from needs_within [OF this] False show ?thesis by (simp add: assms)
qed

lemma normalizedWeights_total:
  assumes "providedWeights options = [w0, w1, w2, w3]" and "totalWeight options = Fin t"
  shows "normalizedWeights options =
     (if 1 / 100 < \<bar>t - 1\<bar>
      then [js_div w0 (Fin t), js_div w1 (Fin t), js_div w2 (Fin t), js_div w3 (Fin t)]
      else [w0, w1, w2, w3])"
  unfolding normalizedWeights_def needs_normalizing_total [OF assms(2)]
  by (simp add: assms)

lemma weighted_validate_total:
  "totalWeight options = Fin t \<Longrightarrow>
     weighted_validate options ed =
       (case vectors_validate options ed of Inl e \<Rightarrow> Inl e
        | Inr u \<Rightarrow> if t = 0 then Inl weights_zero else Inr ())"
  by (simp add: weighted_validate_def)


lemma withRetry_first_success:
  "0 \<le> opt_maxRetries options \<Longrightarrow> operation 0 = Inr v
     \<Longrightarrow> withRetry operation options = (Inr v, [Attempt 0])"
  by (simp add: withRetry_def)

lemma retried_rpc_empty_backend:
  "retried_rpc empty_backend failed unexpected call logs =
     \<lparr>result = Inr [], rpc_calls = [call], retry_events = [Attempt 0], info_logs = logs\<rparr>"
proof -
  have "withRetry (\<lambda>k. rpc_result failed (empty_backend k call)) manager_retry_options = (Inr [], [Attempt 0])"
    by (rule withRetry_first_success) (simp_all add: manager_budget empty_backend_def)
  then show ?thesis by (simp add: retried_rpc_def)
qed

lemma weighted_query_valid:
  "vectors_validate (weighted_query w0 w1 w2 w3) None = Inr ()"
  by (simp add: vectors_validate_def search_validate_def weighted_query_def dense_def)

lemma weighted_query_weights:
  "providedWeights (weighted_query (Some w0) (Some w1) (Some w2) (Some w3)) = [w0, w1, w2, w3]"
  by (simp add: providedWeights_def weighted_query_def)

lemma searchWeighted_empty_backend:
  "weighted_validate options ed = Inr () \<Longrightarrow>
     rpc_calls (searchWeighted empty_backend options ed) =
       [Rpc_match_documents_weighted (weighted_params options)]"
  by (simp add: searchWeighted_def retried_rpc_empty_backend)

lemma searchWeighted_empty_backend_logs:
  "weighted_validate options ed = Inr () \<Longrightarrow>
     info_logs (searchWeighted empty_backend options ed) =
       (if needs_normalizing (totalWeight options) then [[Txt weights_normalized]] else [])"
  by (simp add: searchWeighted_def retried_rpc_empty_backend)

text \<open>Rounding a given real, once its binade is known.\<close>

lemma round64_value:
  assumes "2 powi e \<le> \<bar>x\<bar>" and "\<bar>x\<bar> < 2 powi (e + 1)" and "- 1022 \<le> e" and "e < 1023"
    and "half_even (x / 2 powi (e - 52)) = n"
  shows "round64 x = Fin (of_int n * 2 powi (e - 52))"
  using round64_eval [OF assms(1,2,3,4)] assms(5) by simp

lemma round64_w33: "round64 (33 / 100) = Fin w33"
proof -
  have "half_even (33 / 100 / 2 powi (- 2 - 52)) = 5944751508129055"
    by (simp add: power_int_numeral_neg_numeral half_even_def Let_def)
  then have "round64 (33 / 100) = Fin (of_int 5944751508129055 * 2 powi (- 2 - 52))"
    by (intro round64_value) (simp_all add: power_int_numeral_neg_numeral)
  then show ?thesis by (simp add: w33_def power_int_numeral_neg_numeral)
qed

lemma double_w33:
  "is_double w33" "is_double (w33 + w33)" "is_double total99"
proof -
  show "is_double w33"
    by (rule is_double_dyadic [of _ 5944751508129055 "- 54"])
       (simp_all add: w33_def power_int_numeral_neg_numeral)
  show "is_double (w33 + w33)"
    by (rule is_double_dyadic [of _ 5944751508129055 "- 53"])
       (simp_all add: w33_def power_int_numeral_neg_numeral)
  show "is_double total99"
    by (rule is_double_dyadic [of _ 8917127262193582 "- 53"])
       (simp_all add: total99_def power_int_numeral_neg_numeral)
qed

lemma round64_three_w33: "round64 (w33 + w33 + w33) = Fin total99"
proof -
  have "half_even ((w33 + w33 + w33) / 2 powi (- 1 - 52)) = 8917127262193582"
    by (simp add: w33_def power_int_numeral_neg_numeral half_even_def Let_def)
  then have "round64 (w33 + w33 + w33) = Fin (of_int 8917127262193582 * 2 powi (- 1 - 52))"
    by (intro round64_value) (simp_all add: w33_def power_int_numeral_neg_numeral)
  then show ?thesis by (simp add: total99_def power_int_numeral_neg_numeral)
qed

lemma round64_third: "round64 (w33 / total99) = Fin third"
proof -
  have "half_even (w33 / total99 / 2 powi (- 2 - 52)) = 6004799503160662"
    by (simp add: w33_def total99_def power_int_numeral_neg_numeral half_even_def Let_def)
  then have "round64 (w33 / total99) = Fin (of_int 6004799503160662 * 2 powi (- 2 - 52))"
    by (intro round64_value) (simp_all add: w33_def total99_def power_int_numeral_neg_numeral)
  then show ?thesis by (simp add: third_def power_int_numeral_neg_numeral)
qed

lemma thirds_total: "totalWeight thirds_query = Fin total99"
proof -
  have pw: "providedWeights thirds_query = [Fin w33, Fin w33, Fin w33, Fin 0]"
    unfolding thirds_query_def by (rule weighted_query_weights)
  have "js_add (Fin w33) (Fin w33) = Fin (w33 + w33)"
    using double_w33(2) by (simp add: is_double_def)
  moreover have "js_add (Fin (w33 + w33)) (Fin w33) = Fin total99"
    by (simp only: js_add.simps round64_three_w33)
  moreover have "js_add (Fin total99) (Fin 0) = Fin total99"
    using double_w33(3) by (simp add: is_double_def)
  ultimately show ?thesis by (simp add: totalWeight_def pw)
qed

text \<open>
  Claim C8 says that the weights are dispatched unchanged whenever the effective total
  is within 0.01 of 1.0. The total that the code compares is the rounded one. The
  weights 0.33, 0.33, 0.33 and 0 (the double nearest to 0.33 is \<open>w33\<close>) have a sum within
  0.01 of 1.0, but the total the code computes is the double 0.99, which lies
  0.010000000000000009 below 1.0: the weights are divided by it and dispatched as
  0.33333333333333337, and the normalisation is logged.
\<close>

theorem weights_pass_through_counterexample:
  "round64 (33 / 100) = Fin w33
   \<and> fin_sum [Fin w33, Fin w33, Fin w33, Fin 0] = Some (3 * w33)
   \<and> \<bar>3 * w33 - 1\<bar> \<le> 1 / 100
   \<and> totalWeight thirds_query = Fin total99
   \<and> 1 / 100 < \<bar>total99 - 1\<bar>
   \<and> map call_weights (rpc_calls (searchWeighted empty_backend thirds_query None))
       = [[Fin third, Fin third, Fin third, Fin 0]]
   \<and> third \<noteq> w33
   \<and> info_logs (searchWeighted empty_backend thirds_query None) = [[Txt weights_normalized]]"
proof -
  have pw: "providedWeights thirds_query = [Fin w33, Fin w33, Fin w33, Fin 0]"
    unfolding thirds_query_def by (rule weighted_query_weights)
  have far: "1 / 100 < \<bar>total99 - 1\<bar>" by (simp add: total99_def)
  have t0: "total99 \<noteq> 0" by (simp add: total99_def)
  have v: "weighted_validate thirds_query None = Inr ()"
    by (simp add: weighted_validate_total [OF thirds_total] t0)
       (simp add: thirds_query_def weighted_query_valid)
  have d: "js_div (Fin w33) (Fin total99) = Fin third" "js_div (Fin 0) (Fin total99) = Fin 0"
    using t0 by (simp_all add: round64_third)
  have n: "normalizedWeights thirds_query = [Fin third, Fin third, Fin third, Fin 0]"
    by (simp only: normalizedWeights_total [OF pw thirds_total] far if_True d)
  have needs: "needs_normalizing (totalWeight thirds_query)"
    unfolding needs_normalizing_total [OF thirds_total] by (rule far)
  have "fin_sum [Fin w33, Fin w33, Fin w33, Fin 0] = Some (3 * w33)" by simp
  moreover have "\<bar>3 * w33 - 1\<bar> \<le> 1 / 100" by (simp add: w33_def)
  moreover have "map call_weights (rpc_calls (searchWeighted empty_backend thirds_query None))
       = [[Fin third, Fin third, Fin third, Fin 0]]"
    by (simp add: searchWeighted_empty_backend [OF v] call_weights_weighted_params n
        del: call_weights.simps)
  moreover have "third \<noteq> w33" by (simp add: third_def w33_def)
  moreover have "info_logs (searchWeighted empty_backend thirds_query None) = [[Txt weights_normalized]]"
    by (simp add: searchWeighted_empty_backend_logs [OF v] needs)
  ultimately show ?thesis using round64_w33 thirds_total far by blast
qed


lemma near_one_total: "totalWeight near_one_query = Fin (129 / 128)"
proof -
  have pw: "providedWeights near_one_query = [Fin (1 / 2), Fin (1 / 2), Fin (1 / 128), Fin 0]"
    unfolding near_one_query_def by (rule weighted_query_weights)
  have d: "is_double (129 / 128)"
    by (rule is_double_dyadic [of _ 129 "- 7"]) (simp_all add: power_int_numeral_neg_numeral)
  have "totalWeight near_one_query = Fin (1 / 2 + 1 / 2 + 1 / 128 + 0)"
    using is_double_examples(2) d by (intro totalWeight_exact [OF pw]) simp_all
  then show ?thesis by simp
qed



lemma searchWeighted_dispatches:
  assumes "weighted_validate options ed = Inr u"
  shows "rpc_calls (searchWeighted client options ed) \<noteq> []"
proof -
  have "set (rpc_calls (searchWeighted client options ed)) =
      {Rpc_match_documents_weighted (weighted_params options)}"
    using assms by (simp add: searchWeighted_def set_rpc_calls_retried)
  then show ?thesis by force
qed

lemma search_dispatches:
  assumes "search_validate options ed = Inr u"
  shows "rpc_calls (search client options ed) \<noteq> []"
proof -
  have "set (rpc_calls (search client options ed)) = {Rpc_match_documents (search_params options)}"
    using assms by (simp add: search_def set_rpc_calls_retried)
  then show ?thesis by force
qed

lemma weights_zero_kept: "rethrow unexpected weights_zero = weights_zero"
  by (simp add: rethrow_def weights_zero_def)

lemma query_required_kept: "rethrow unexpected query_required = query_required"
  by (simp add: rethrow_def query_required_def)

lemma searchWeighted_invalid:
  "weighted_validate options ed = Inl e \<Longrightarrow>
     searchWeighted client options ed = failed_run (rethrow weighted_unexpected e)"
  by (simp add: searchWeighted_def failed_run_def)

lemma search_invalid:
  "search_validate options ed = Inl e \<Longrightarrow>
     search client options ed = failed_run (rethrow search_unexpected e)"
  by (simp add: search_def failed_run_def)

lemma round64_w005: "round64 (5 / 1000) = Fin w005"
proof -
  have "half_even (5 / 1000 / 2 powi (- 8 - 52)) = 5764607523034235"
    by (simp add: power_int_numeral_neg_numeral half_even_def Let_def)
  then have "round64 (5 / 1000) = Fin (of_int 5764607523034235 * 2 powi (- 8 - 52))"
    by (intro round64_value) (simp_all add: power_int_numeral_neg_numeral)
  then show ?thesis by (simp add: w005_def power_int_numeral_neg_numeral)
qed

lemma round64_one_w005: "round64 (1 + w005) = Fin total1005"
proof -
  have "half_even ((1 + w005) / 2 powi (0 - 52)) = 4526117625507348"
    by (simp add: w005_def power_int_numeral_neg_numeral half_even_def Let_def)
  then have "round64 (1 + w005) = Fin (of_int 4526117625507348 * 2 powi (0 - 52))"
    by (intro round64_value) (simp_all add: w005_def power_int_numeral_neg_numeral)
  then show ?thesis by (simp add: total1005_def power_int_numeral_neg_numeral)
qed

lemma double_total1005: "is_double total1005"
  by (rule is_double_dyadic [of _ 4526117625507348 "- 52"])
     (simp_all add: total1005_def power_int_numeral_neg_numeral)

lemma small_third_sum: "js_total [Fin (1 / 2), Fin (1 / 2), Fin w005, Fin 0] = Fin total1005"
proof -
  have "js_add (Fin (1 / 2)) (Fin (1 / 2)) = Fin 1"
    using is_double_examples(2) by (simp add: is_double_def)
  moreover have "js_add (Fin 1) (Fin w005) = Fin total1005"
    by (simp only: js_add.simps round64_one_w005)
  moreover have "js_add (Fin total1005) (Fin 0) = Fin total1005"
    using double_total1005 by (simp add: is_double_def)
  ultimately show ?thesis by (simp add: js_total_def)
qed

lemma overflow_sum: "round64 (2 powi 1023 + 2 powi 1023) = PosInf"
proof -
  have "0 \<le> (1024 :: int) - 1023" by simp
  from pow2_split [OF this] have "(2 :: real) powi 1024 = 2 powi 1023 + 2 powi 1023" by simp
  then have "huge \<le> 2 powi 1023 + 2 powi 1023" by (simp add: huge_def)
  then show ?thesis by (rule round64_overflow)
qed



lemma total_chain:
  "providedWeights options = [Fin a, Fin b, Fin c, Fin d] \<Longrightarrow>
     totalWeight options = js_add (js_add (js_add (Fin a) (Fin b)) (Fin c)) (Fin d)"
  by (simp add: totalWeight_def)

lemma total_sign:
  fixes S t :: real
  assumes "0 \<le> S" and "S * (1 - 4 / 2 ^ 53) \<le> t" and "t \<le> S * (1 + 4 / 2 ^ 53)"
  shows "(0 < t) = (0 < S)" and "(t = 0) = (S = 0)"
proof -
  have e: "S * (1 - 4 / 2 ^ 53) = S - S / 2251799813685248"
    "S * (1 + 4 / 2 ^ 53) = S + S / 2251799813685248"
    by (simp_all add: algebra_simps)
  show "(0 < t) = (0 < S)" using assms unfolding e by linarith
  show "(t = 0) = (S = 0)" using assms unfolding e by linarith
qed

lemma fin_sum_four: "fin_sum [Fin x0, Fin x1, Fin x2, Fin x3] = Some (x0 + x1 + x2 + x3)"
  by (simp add: add.assoc)

lemma zero_total_run:
  assumes "totalWeight options = Fin 0"
  shows "\<exists>e. searchWeighted client options ed = failed_run e
           \<and> (vectors_validate options ed = Inr () \<longrightarrow> e = weights_zero)"
proof (cases "vectors_validate options ed")
  case (Inl e)
  then have "weighted_validate options ed = Inl e"
    by (simp add: weighted_validate_total [OF assms])
  from searchWeighted_invalid [OF this, of client] Inl show ?thesis by auto
next
  case (Inr u)
  then have "weighted_validate options ed = Inl weights_zero"
    by (simp add: weighted_validate_total [OF assms])
  from searchWeighted_invalid [OF this, of client] show ?thesis
    by (auto simp: weights_zero_kept)
qed



lemma double_three_four: "is_double 3" "is_double 4"
proof -
  show "is_double 3" by (rule is_double_dyadic [of _ 3 0]) simp_all
  show "is_double 4" by (rule is_double_dyadic [of _ 4 0]) simp_all
qed


lemma changelog_unset_weights:
  assumes "weightMain options = Some (Fin 50)" and "weightSection2 options = Some (Fin 50)"
    and "weightSection1 options = None" and "weightSection3 options = None"
  shows "providedWeights options = [Fin 50, Fin (1 / 4), Fin 50, Fin (1 / 4)]"
  using assms by (simp add: providedWeights_def)

lemma changelog_zero_weights:
  assumes "weightMain options = Some (Fin 50)" and "weightSection2 options = Some (Fin 50)"
    and "weightSection1 options = Some (Fin 0)" and "weightSection3 options = Some (Fin 0)"
  shows "providedWeights options = [Fin 50, Fin 0, Fin 50, Fin 0]"
  using assms by (simp add: providedWeights_def)

lemma changelog_unset_total:
  assumes "providedWeights options = [Fin 50, Fin (1 / 4), Fin 50, Fin (1 / 4)]"
  shows "totalWeight options = Fin (201 / 2)"
proof -
  have "totalWeight options = Fin (50 + 1 / 4 + 50 + 1 / 4)"
    using is_double_examples(10,12,11) by (intro totalWeight_exact [OF assms]) simp_all
  then show ?thesis by simp
qed

lemma changelog_zero_total:
  assumes "providedWeights options = [Fin 50, Fin 0, Fin 50, Fin 0]"
  shows "totalWeight options = Fin 100"
proof -
  have "totalWeight options = Fin (50 + 0 + 50 + 0)"
    using is_double_examples(6,9) by (intro totalWeight_exact [OF assms]) simp_all
  then show ?thesis by simp
qed

lemma changelog_unset_normalized:
  assumes "providedWeights options = [Fin 50, Fin (1 / 4), Fin 50, Fin (1 / 4)]"
  shows "normalizedWeights options =
     [round64 (100 / 201), round64 (1 / 402), round64 (100 / 201), round64 (1 / 402)]"
proof -
  have far: "1 / 100 < \<bar>201 / 2 - 1 :: real\<bar>" by simp
  have q: "js_div (Fin 50) (Fin (201 / 2)) = round64 (100 / 201)"
    "js_div (Fin (1 / 4)) (Fin (201 / 2)) = round64 (1 / 402)"
    by simp_all
  show ?thesis
    by (simp only: normalizedWeights_total [OF assms changelog_unset_total [OF assms]] far if_True q)
qed

lemma changelog_zero_normalized:
  assumes "providedWeights options = [Fin 50, Fin 0, Fin 50, Fin 0]"
  shows "normalizedWeights options = [Fin (1 / 2), Fin 0, Fin (1 / 2), Fin 0]"
proof -
  have far: "1 / 100 < \<bar>100 - 1 :: real\<bar>" by simp
  have q: "js_div (Fin 50) (Fin 100) = Fin (1 / 2)" "js_div (Fin 0) (Fin 100) = Fin 0"
    using is_double_examples(4) by (simp_all add: is_double_def)
  show ?thesis
    by (simp only: normalizedWeights_total [OF assms changelog_zero_total [OF assms]] far if_True q)
qed

lemma round64_main_share: "round64 (100 / 201) = Fin main_share"
proof -
  have "half_even (100 / 201 / 2 powi (- 2 - 52)) = 8962387318150241"
    by (simp add: power_int_numeral_neg_numeral half_even_def Let_def)
  then have "round64 (100 / 201) = Fin (of_int 8962387318150241 * 2 powi (- 2 - 52))"
    by (intro round64_value) (simp_all add: power_int_numeral_neg_numeral)
  then show ?thesis by (simp add: main_share_def power_int_numeral_neg_numeral)
qed

lemma round64_rest_share: "round64 (1 / 402) = Fin rest_share"
proof -
  have "half_even (1 / 402 / 2 powi (- 9 - 52)) = 5735927883616154"
    by (simp add: power_int_numeral_neg_numeral half_even_def Let_def)
  then have "round64 (1 / 402) = Fin (of_int 5735927883616154 * 2 powi (- 9 - 52))"
    by (intro round64_value) (simp_all add: power_int_numeral_neg_numeral)
  then show ?thesis by (simp add: rest_share_def power_int_numeral_neg_numeral)
qed

text \<open>
  Claim C6 says that raw weights main = 50 and section2 = 50 with the other two weight
  slots left unset are dispatched as 0.5, 0, 0.5, 0. The unset slots take the default
  0.25 before the total is formed, so the total is 100.5 and the dispatched weights are
  100/201, 1/402, 100/201 and 1/402, each rounded to the nearest double:
  0.4975124378109453 and 0.0024875621890547263.
\<close>

theorem changelog_weights_counterexample:
  "map call_weights (rpc_calls (searchWeighted empty_backend
       (weighted_query (Some (Fin 50)) None (Some (Fin 50)) None) None))
     = [[Fin main_share, Fin rest_share, Fin main_share, Fin rest_share]]
   \<and> round64 (100 / 201) = Fin main_share \<and> round64 (1 / 402) = Fin rest_share
   \<and> map call_weights (rpc_calls (searchWeighted empty_backend
       (weighted_query (Some (Fin 50)) None (Some (Fin 50)) None) None))
     \<noteq> [[Fin 0.5, Fin 0, Fin 0.5, Fin 0]]"
proof -
  define opts where "opts = weighted_query (Some (Fin 50)) None (Some (Fin 50)) None"
  have pw: "providedWeights opts = [Fin 50, Fin (1 / 4), Fin 50, Fin (1 / 4)]"
    by (rule changelog_unset_weights) (simp_all add: opts_def weighted_query_def)
  have v: "weighted_validate opts None = Inr ()"
    by (simp add: weighted_validate_total [OF changelog_unset_total [OF pw]])
       (simp add: opts_def weighted_query_valid)
  have n: "normalizedWeights opts = [Fin main_share, Fin rest_share, Fin main_share, Fin rest_share]"
    by (simp only: changelog_unset_normalized [OF pw] round64_main_share round64_rest_share)
  have c: "map call_weights (rpc_calls (searchWeighted empty_backend opts None)) =
      [[Fin main_share, Fin rest_share, Fin main_share, Fin rest_share]]"
    by (simp add: searchWeighted_empty_backend [OF v] call_weights_weighted_params n
        del: call_weights.simps)
  moreover have "map call_weights (rpc_calls (searchWeighted empty_backend opts None))
     \<noteq> [[Fin 0.5, Fin 0, Fin 0.5, Fin 0]]"
    unfolding c by (simp add: main_share_def)
  ultimately show ?thesis
    using round64_main_share round64_rest_share unfolding opts_def by blast
qed

text \<open>
  Claim C6, amended. For a weighted search with raw weights main = 50 and section2 = 50:
  when the other two weight slots are left unset, each takes the default 0.25 before
  normalisation, whether or not its query vector is present, and every dispatched call
  carries main = 100/201, section1 = 1/402, section2 = 100/201, section3 = 1/402, each
  rounded to the nearest double; when the other two slots are given the explicit weight
  0, every dispatched call carries exactly main = 0.5, section1 = 0, section2 = 0.5,
  section3 = 0. In both cases a call is dispatched as soon as the query vectors pass
  their validation.
\<close>

theorem changelog_weights:
  assumes "weightMain options = Some (Fin 50)" and "weightSection2 options = Some (Fin 50)"
  shows "(weightSection1 options = None \<and> weightSection3 options = None \<longrightarrow>
            (\<forall>call \<in> set (rpc_calls (searchWeighted client options ed)).
               call_weights call =
                 [round64 (100 / 201), round64 (1 / 402), round64 (100 / 201), round64 (1 / 402)])
            \<and> (vectors_validate options ed = Inr () \<longrightarrow>
                  rpc_calls (searchWeighted client options ed) \<noteq> []))
       \<and> (weightSection1 options = Some (Fin 0) \<and> weightSection3 options = Some (Fin 0) \<longrightarrow>
            (\<forall>call \<in> set (rpc_calls (searchWeighted client options ed)).
               call_weights call = [Fin 0.5, Fin 0, Fin 0.5, Fin 0])
            \<and> (vectors_validate options ed = Inr () \<longrightarrow>
                  rpc_calls (searchWeighted client options ed) \<noteq> []))"
proof -
  have unset: "call_weights call =
      [round64 (100 / 201), round64 (1 / 402), round64 (100 / 201), round64 (1 / 402)]"
    if "weightSection1 options = None" "weightSection3 options = None"
      and "call \<in> set (rpc_calls (searchWeighted client options ed))" for call
  proof -
    note pw = changelog_unset_weights [OF assms that(1,2)]
    show ?thesis
      unfolding dispatched_weights [OF that(3)] by (rule changelog_unset_normalized [OF pw])
  qed
  have unset_calls: "rpc_calls (searchWeighted client options ed) \<noteq> []"
    if "weightSection1 options = None" "weightSection3 options = None"
      and "vectors_validate options ed = Inr ()"
  proof -
    note pw = changelog_unset_weights [OF assms that(1,2)]
    have "weighted_validate options ed = Inr ()"
      by (simp add: weighted_validate_total [OF changelog_unset_total [OF pw]] that(3))
    then show ?thesis by (rule searchWeighted_dispatches)
  qed
  have zero: "call_weights call = [Fin 0.5, Fin 0, Fin 0.5, Fin 0]"
    if "weightSection1 options = Some (Fin 0)" "weightSection3 options = Some (Fin 0)"
      and "call \<in> set (rpc_calls (searchWeighted client options ed))" for call
  proof -
    note pw = changelog_zero_weights [OF assms that(1,2)]
    show ?thesis
      unfolding dispatched_weights [OF that(3)] changelog_zero_normalized [OF pw] by simp
  qed
  have zero_calls: "rpc_calls (searchWeighted client options ed) \<noteq> []"
    if "weightSection1 options = Some (Fin 0)" "weightSection3 options = Some (Fin 0)"
      and "vectors_validate options ed = Inr ()"
  proof -
    note pw = changelog_zero_weights [OF assms that(1,2)]
    have "weighted_validate options ed = Inr ()"
      by (simp add: weighted_validate_total [OF changelog_zero_total [OF pw]] that(3))
    then show ?thesis by (rule searchWeighted_dispatches)
  qed
  from unset unset_calls zero zero_calls show ?thesis by blast
qed

theorem changelog_weights_witness:
  "map call_weights (rpc_calls (searchWeighted empty_backend
       (weighted_query (Some (Fin 50)) (Some (Fin 0)) (Some (Fin 50)) (Some (Fin 0))) None))
     = [[Fin 0.5, Fin 0, Fin 0.5, Fin 0]]
   \<and> weight_section_1 (weighted_params (weighted_query (Some (Fin 50)) None (Some (Fin 50)) None))
     = Fin rest_share"
proof -
  define zeros where "zeros = weighted_query (Some (Fin 50)) (Some (Fin 0)) (Some (Fin 50)) (Some (Fin 0))"
  define unset where "unset = weighted_query (Some (Fin 50)) None (Some (Fin 50)) None"
  have z: "weightMain zeros = Some (Fin 50)" "weightSection2 zeros = Some (Fin 50)"
      "weightSection1 zeros = Some (Fin 0) \<and> weightSection3 zeros = Some (Fin 0)"
    and u: "weightMain unset = Some (Fin 50)" "weightSection2 unset = Some (Fin 50)"
      "weightSection1 unset = None \<and> weightSection3 unset = None"
    by (simp_all add: zeros_def unset_def weighted_query_def)
  have vz: "vectors_validate zeros None = Inr ()" and vu: "vectors_validate unset None = Inr ()"
    by (simp_all add: zeros_def unset_def weighted_query_valid)
  note tz = changelog_weights [OF z(1,2), of empty_backend None, THEN conjunct2, rule_format, OF z(3)]
  note tu = changelog_weights [OF u(1,2), of empty_backend None, THEN conjunct1, rule_format, OF u(3)]
  have pz: "providedWeights zeros = [Fin 50, Fin 0, Fin 50, Fin 0]"
    using z by (intro changelog_zero_weights) simp_all
  have pu: "providedWeights unset = [Fin 50, Fin (1 / 4), Fin 50, Fin (1 / 4)]"
    using u by (intro changelog_unset_weights) simp_all
  have wz: "weighted_validate zeros None = Inr ()"
    by (simp add: weighted_validate_total [OF changelog_zero_total [OF pz]] vz)
  have wu: "weighted_validate unset None = Inr ()"
    by (simp add: weighted_validate_total [OF changelog_unset_total [OF pu]] vu)
  have cz: "rpc_calls (searchWeighted empty_backend zeros None) =
      [Rpc_match_documents_weighted (weighted_params zeros)]"
    by (rule searchWeighted_empty_backend [OF wz])
  have cu: "rpc_calls (searchWeighted empty_backend unset None) =
      [Rpc_match_documents_weighted (weighted_params unset)]"
    by (rule searchWeighted_empty_backend [OF wu])
  have "call_weights (Rpc_match_documents_weighted (weighted_params zeros)) =
      [Fin 0.5, Fin 0, Fin 0.5, Fin 0]"
    using tz [THEN conjunct1] by (simp add: cz del: call_weights.simps)
  then have "map call_weights (rpc_calls (searchWeighted empty_backend zeros None)) =
      [[Fin 0.5, Fin 0, Fin 0.5, Fin 0]]"
    by (simp add: cz del: call_weights.simps)
  moreover have "call_weights (Rpc_match_documents_weighted (weighted_params unset)) =
      [round64 (100 / 201), round64 (1 / 402), round64 (100 / 201), round64 (1 / 402)]"
    using tu [THEN conjunct1] by (simp add: cu del: call_weights.simps)
  then have "weight_section_1 (weighted_params unset) = Fin rest_share"
    by (simp add: round64_rest_share)
  ultimately show ?thesis unfolding zeros_def unset_def by blast
qed

lemma zero_threshold_same_params:
  "matchThreshold options = Some (Fin 0) \<Longrightarrow>
     search_params (options\<lparr>matchThreshold := None\<rparr>) = search_params options"
  by (simp add: search_params_def js_or_default_def)

lemma zero_count_same_params:
  "matchCount options = Some (Fin 0) \<Longrightarrow>
     search_params (options\<lparr>matchCount := None\<rparr>) = search_params options"
  by (simp add: search_params_def js_or_default_def)

lemma search_validate_update:
  "search_validate (options\<lparr>matchThreshold := x\<rparr>) ed = search_validate options ed"
  "search_validate (options\<lparr>matchCount := y\<rparr>) ed = search_validate options ed"
  by (simp_all add: search_validate_def)

lemma zero_threshold_same_search:
  "matchThreshold options = Some (Fin 0) \<Longrightarrow>
     search client (options\<lparr>matchThreshold := None\<rparr>) ed = search client options ed"
  by (simp add: search_def search_validate_update zero_threshold_same_params split: sum.splits)

lemma zero_count_same_search:
  "matchCount options = Some (Fin 0) \<Longrightarrow>
     search client (options\<lparr>matchCount := None\<rparr>) ed = search client options ed"
  by (simp add: search_def search_validate_update zero_count_same_params split: sum.splits)

lemma vectors_validate_update:
  "vectors_validate (options\<lparr>matchThreshold := x\<rparr>) ed = vectors_validate options ed"
  "vectors_validate (options\<lparr>matchCount := y\<rparr>) ed = vectors_validate options ed"
  by (simp_all add: vectors_validate_def search_validate_update cong: sum.case_cong if_cong)

lemma weighted_unchanged_by_threshold:
  "providedWeights (options\<lparr>matchThreshold := x\<rparr>) = providedWeights options"
  "totalWeight (options\<lparr>matchThreshold := x\<rparr>) = totalWeight options"
  "normalizedWeights (options\<lparr>matchThreshold := x\<rparr>) = normalizedWeights options"
  "weighted_validate (options\<lparr>matchThreshold := x\<rparr>) ed = weighted_validate options ed"
  by (simp_all add: providedWeights_def totalWeight_def normalizedWeights_def
      weighted_validate_def vectors_validate_update)

lemma weighted_unchanged_by_count:
  "providedWeights (options\<lparr>matchCount := x\<rparr>) = providedWeights options"
  "totalWeight (options\<lparr>matchCount := x\<rparr>) = totalWeight options"
  "normalizedWeights (options\<lparr>matchCount := x\<rparr>) = normalizedWeights options"
  "weighted_validate (options\<lparr>matchCount := x\<rparr>) ed = weighted_validate options ed"
  by (simp_all add: providedWeights_def totalWeight_def normalizedWeights_def
      weighted_validate_def vectors_validate_update)

lemma zero_threshold_same_searchWeighted:
  "matchThreshold options = Some (Fin 0) \<Longrightarrow>
     searchWeighted client (options\<lparr>matchThreshold := None\<rparr>) ed = searchWeighted client options ed"
  by (simp add: searchWeighted_def weighted_unchanged_by_threshold weighted_params_def
      js_or_default_def split: sum.splits)

lemma zero_count_same_searchWeighted:
  "matchCount options = Some (Fin 0) \<Longrightarrow>
     searchWeighted client (options\<lparr>matchCount := None\<rparr>) ed = searchWeighted client options ed"
  by (simp add: searchWeighted_def weighted_unchanged_by_count weighted_params_def
      js_or_default_def split: sum.splits)

lemma search_call_threshold:
  assumes "call \<in> set (rpc_calls (search client options ed))"
  shows "call_threshold_and_count call =
     (js_or_default (matchThreshold options) (Fin 0.5), js_or_default (matchCount options) (Fin 10))"
proof -
  from assms have "call = Rpc_match_documents (search_params options)"
    by (simp add: search_calls split: if_splits)
  then show ?thesis by (simp add: search_params_def)
qed

lemma searchWeighted_call_threshold:
  assumes "call \<in> set (rpc_calls (searchWeighted client options ed))"
  shows "call_threshold_and_count call =
     (js_or_default (matchThreshold options) (Fin 0.5), js_or_default (matchCount options) (Fin 10))"
proof -
  from assms have "call = Rpc_match_documents_weighted (weighted_params options)"
    by (simp add: searchWeighted_calls split: if_splits)
  then show ?thesis by (simp add: weighted_params_def)
qed

lemma less_four: "i < 4 \<Longrightarrow> i = 0 \<or> i = 1 \<or> i = 2 \<or> i = (3 :: nat)"
  by arith

lemma zero_weight_provided:
  assumes "i < 4" and "weight_inputs options ! i = Some (Fin 0)"
  shows "providedWeights options ! i = Fin 0"
  using less_four [OF assms(1)] assms(2)
  by (elim disjE) (simp_all add: providedWeights_def weight_inputs_def)

lemma js_div_zero_total:
  "\<not> js_strict_eq t (Fin 0) \<Longrightarrow> needs_normalizing t \<Longrightarrow> js_div (Fin 0) t = Fin 0"
  by (cases t) (simp_all add: needs_normalizing_def js_sub_def)

lemma zero_weight_dispatched:
  assumes i: "i < 4" and w: "weight_inputs options ! i = Some (Fin 0)"
    and call: "call \<in> set (rpc_calls (searchWeighted client options ed))"
  shows "call_weights call ! i = Fin 0"
proof -
  from call have valid: "weighted_validate options ed = Inr ()"
    and c: "call = Rpc_match_documents_weighted (weighted_params options)"
    by (simp_all add: searchWeighted_calls split: if_splits)
  from valid have nz: "\<not> js_strict_eq (totalWeight options) (Fin 0)"
    by (auto simp: weighted_validate_def split: sum.splits if_splits)
  have p: "providedWeights options ! i = Fin 0"
    using i w by (rule zero_weight_provided)
  have len: "i < length (providedWeights options)"
    using i by (simp add: length_providedWeights)
  have "normalizedWeights options ! i = Fin 0"
    using p len nz by (simp add: normalizedWeights_def js_div_zero_total)
  then show ?thesis
    unfolding c call_weights_weighted_params .
qed

text \<open>
  Claim C10. In \<^verbatim>\<open>search\<close> and in \<^verbatim>\<open>searchWeighted\<close> a \<^verbatim>\<open>matchThreshold\<close> of
  exactly 0 is sent to the backend as 0.5 and a \<^verbatim>\<open>matchCount\<close> of 0 as 10, and the whole
  run is the one of the same call with the option left unset. A weight input of exactly
  0 is not replaced by its default 0.25: the slot's weight is 0 in every dispatched call.
\<close>

theorem zero_threshold_and_count_defaulted:
  "(matchThreshold options = Some (Fin 0) \<longrightarrow>
      (\<forall>call \<in> set (rpc_calls (search client options ed)).
         fst (call_threshold_and_count call) = Fin 0.5)
      \<and> search client options ed = search client (options\<lparr>matchThreshold := None\<rparr>) ed)
   \<and> (matchCount options = Some (Fin 0) \<longrightarrow>
      (\<forall>call \<in> set (rpc_calls (search client options ed)).
         snd (call_threshold_and_count call) = Fin 10)
      \<and> search client options ed = search client (options\<lparr>matchCount := None\<rparr>) ed)
   \<and> (matchThreshold woptions = Some (Fin 0) \<longrightarrow>
      (\<forall>call \<in> set (rpc_calls (searchWeighted client woptions ed)).
         fst (call_threshold_and_count call) = Fin 0.5)
      \<and> searchWeighted client woptions ed = searchWeighted client (woptions\<lparr>matchThreshold := None\<rparr>) ed)
   \<and> (matchCount woptions = Some (Fin 0) \<longrightarrow>
      (\<forall>call \<in> set (rpc_calls (searchWeighted client woptions ed)).
         snd (call_threshold_and_count call) = Fin 10)
      \<and> searchWeighted client woptions ed = searchWeighted client (woptions\<lparr>matchCount := None\<rparr>) ed)
   \<and> (\<forall>i < 4. weight_inputs woptions ! i = Some (Fin 0) \<longrightarrow>
        providedWeights woptions ! i = Fin 0
        \<and> (\<forall>call \<in> set (rpc_calls (searchWeighted client woptions ed)).
              call_weights call ! i = Fin 0))"
proof -
  have a: "fst (call_threshold_and_count call) = Fin 0.5"
    if "matchThreshold options = Some (Fin 0)" "call \<in> set (rpc_calls (search client options ed))" for call
    using search_call_threshold [OF that(2)] that(1) by (simp add: js_or_default_def)
  have b: "snd (call_threshold_and_count call) = Fin 10"
    if "matchCount options = Some (Fin 0)" "call \<in> set (rpc_calls (search client options ed))" for call
    using search_call_threshold [OF that(2)] that(1) by (simp add: js_or_default_def)
  have c: "fst (call_threshold_and_count call) = Fin 0.5"
    if "matchThreshold woptions = Some (Fin 0)"
      "call \<in> set (rpc_calls (searchWeighted client woptions ed))" for call
    using searchWeighted_call_threshold [OF that(2)] that(1) by (simp add: js_or_default_def)
  have d: "snd (call_threshold_and_count call) = Fin 10"
    if "matchCount woptions = Some (Fin 0)"
      "call \<in> set (rpc_calls (searchWeighted client woptions ed))" for call
    using searchWeighted_call_threshold [OF that(2)] that(1) by (simp add: js_or_default_def)
  have e: "providedWeights woptions ! i = Fin 0"
    if "i < 4" "weight_inputs woptions ! i = Some (Fin 0)" for i
    using that by (rule zero_weight_provided)
  note f = zero_weight_dispatched [of _ woptions _ client ed]
  note g = zero_threshold_same_search [of options client ed, symmetric]
    zero_count_same_search [of options client ed, symmetric]
    zero_threshold_same_searchWeighted [of woptions client ed, symmetric]
    zero_count_same_searchWeighted [of woptions client ed, symmetric]
  from a b c d e f g show ?thesis by blast
qed


lemma search_empty_backend:
  "search_validate options ed = Inr () \<Longrightarrow>
     rpc_calls (search empty_backend options ed) = [Rpc_match_documents (search_params options)]"
  by (simp add: search_def retried_rpc_empty_backend)

theorem zero_threshold_and_count_defaulted_witness:
  "map call_threshold_and_count (rpc_calls (search empty_backend zero_options None))
     = [(Fin 0.5, Fin 10)]
   \<and> map call_threshold_and_count (rpc_calls (searchWeighted empty_backend zero_weighted_options None))
     = [(Fin 0.5, Fin 10)]
   \<and> weight_section_1 (weighted_params zero_weighted_options) = Fin 0"
proof -
  have o: "matchThreshold zero_options = Some (Fin 0)" "matchCount zero_options = Some (Fin 0)"
    and w: "matchThreshold zero_weighted_options = Some (Fin 0)"
      "matchCount zero_weighted_options = Some (Fin 0)"
    and s1: "weight_inputs zero_weighted_options ! 1 = Some (Fin 0)"
    by (simp_all add: zero_options_def zero_weighted_options_def short_query_def
        weighted_query_def weight_inputs_def)
  note t = zero_threshold_and_count_defaulted [of zero_options empty_backend None zero_weighted_options]
  have vs: "search_validate zero_options None = Inr ()"
    by (simp add: search_validate_def zero_options_def short_query_def dense_def)
  have pw: "providedWeights zero_weighted_options = [Fin (1 / 4), Fin 0, Fin (1 / 4), Fin (1 / 4)]"
    by (simp add: providedWeights_def zero_weighted_options_def weighted_query_def)
  have "totalWeight zero_weighted_options = Fin (1 / 4 + 0 + 1 / 4 + 1 / 4)"
    using is_double_examples(5,4,7) by (intro totalWeight_exact [OF pw]) simp_all
  then have tw: "totalWeight zero_weighted_options = Fin (3 / 4)" by simp
  have vv: "vectors_validate zero_weighted_options None = Inr ()"
    by (simp add: zero_weighted_options_def vectors_validate_update weighted_query_valid)
  have vw: "weighted_validate zero_weighted_options None = Inr ()"
    by (simp add: weighted_validate_total [OF tw] vv)
  note cs = search_empty_backend [OF vs]
  note cw = searchWeighted_empty_backend [OF vw]
  have ins: "Rpc_match_documents (search_params zero_options)
      \<in> set (rpc_calls (search empty_backend zero_options None))"
    and inw: "Rpc_match_documents_weighted (weighted_params zero_weighted_options)
      \<in> set (rpc_calls (searchWeighted empty_backend zero_weighted_options None))"
    by (simp_all add: cs cw)
  have "fst (call_threshold_and_count (Rpc_match_documents (search_params zero_options))) = Fin 0.5"
    using t o(1) ins by blast
  moreover have "snd (call_threshold_and_count (Rpc_match_documents (search_params zero_options))) = Fin 10"
    using t o(2) ins by blast
  ultimately have a: "map call_threshold_and_count (rpc_calls (search empty_backend zero_options None))
     = [(Fin 0.5, Fin 10)]"
    by (simp add: cs prod_eq_iff del: call_threshold_and_count.simps)
  have "fst (call_threshold_and_count
      (Rpc_match_documents_weighted (weighted_params zero_weighted_options))) = Fin 0.5"
    using t w(1) inw by blast
  moreover have "snd (call_threshold_and_count
      (Rpc_match_documents_weighted (weighted_params zero_weighted_options))) = Fin 10"
    using t w(2) inw by blast
  ultimately have b: "map call_threshold_and_count
      (rpc_calls (searchWeighted empty_backend zero_weighted_options None)) = [(Fin 0.5, Fin 10)]"
    by (simp add: cw prod_eq_iff del: call_threshold_and_count.simps)
  have one: "(1 :: nat) < 4" by simp
  have "call_weights (Rpc_match_documents_weighted (weighted_params zero_weighted_options)) ! 1 = Fin 0"
    using t [THEN conjunct2, THEN conjunct2, THEN conjunct2, THEN conjunct2, rule_format, OF one s1]
      inw by blast
  then have c: "weight_section_1 (weighted_params zero_weighted_options) = Fin 0"
    by simp
  from a b c show ?thesis by blast
qed

section \<open>Validation failures\<close>

lemma validate_error_is_EmbeddingError:
  "validateEmbeddingDimensions v d = Inl e \<Longrightarrow> \<exists>m c. e = EmbeddingError m c"
  by (cases v) (auto split: if_splits)

lemma rethrow_validator_error:
  assumes "validateEmbeddingDimensions v d = Inl e"
  shows "rethrow unexpected e = SearchError [Txt unexpected] None"
  using validate_error_is_EmbeddingError [OF assms] by (auto simp: rethrow_def)

lemma not_Inr_unit: "(r \<noteq> Inr ()) = (\<exists>e. r = Inl e)" for r :: "js_error + unit"
  by (cases r) auto

lemma search_validate_missing:
  "queryEmbedding options = None \<or> queryEmbedding options = Some [] \<Longrightarrow>
     search_validate options ed = Inl query_required"
  by (auto simp: search_validate_def)

lemma search_validate_present:
  "queryEmbedding options = Some q \<Longrightarrow> q \<noteq> [] \<Longrightarrow> js_truthy_num (Some d) \<Longrightarrow>
     search_validate options (Some d) = validateEmbeddingDimensions (JArray q) d"
  by (simp add: search_validate_def)

lemma vectors_validate_fails:
  assumes q: "queryEmbedding options = Some q" "q \<noteq> []" and d: "js_truthy_num (Some d)"
    and bad: "\<exists>v \<in> set (supplied_vectors options). validateEmbeddingDimensions (JArray v) d \<noteq> Inr ()"
  shows "\<exists>v \<in> set (supplied_vectors options). \<exists>e.
           validateEmbeddingDimensions (JArray v) d = Inl e \<and> vectors_validate options (Some d) = Inl e"
proof -
  have sv: "search_validate options (Some d) = validateEmbeddingDimensions (JArray q) d"
    using q d by (rule search_validate_present)
  show ?thesis
  proof (cases "validateEmbeddingDimensions (JArray q) d")
    case (Inl e)
    then have "vectors_validate options (Some d) = Inl e"
      by (simp add: vectors_validate_def sv)
    moreover have "q \<in> set (supplied_vectors options)"
      using q by (simp add: supplied_vectors_def)
    ultimately show ?thesis using Inl by blast
  next
    case main: (Inr u)
    show ?thesis
    proof (cases "validate_if_present (querySection1 options) d")
      case (Inl e)
      then obtain v where "querySection1 options = Some v" "validateEmbeddingDimensions (JArray v) d = Inl e"
        by (auto simp: validate_if_present_def split: option.splits)
      moreover from this have "v \<in> set (supplied_vectors options)"
        by (simp add: supplied_vectors_def)
      moreover have "vectors_validate options (Some d) = Inl e"
        using d main Inl by (simp add: vectors_validate_def sv)
      ultimately show ?thesis by blast
    next
      case s1: (Inr u1)
      show ?thesis
      proof (cases "validate_if_present (querySection2 options) d")
        case (Inl e)
        then obtain v where "querySection2 options = Some v" "validateEmbeddingDimensions (JArray v) d = Inl e"
          by (auto simp: validate_if_present_def split: option.splits)
        moreover from this have "v \<in> set (supplied_vectors options)"
          by (simp add: supplied_vectors_def)
        moreover have "vectors_validate options (Some d) = Inl e"
          using d main s1 Inl by (simp add: vectors_validate_def sv)
        ultimately show ?thesis by blast
      next
        case s2: (Inr u2)
        show ?thesis
        proof (cases "validate_if_present (querySection3 options) d")
          case (Inl e)
          then obtain v where "querySection3 options = Some v" "validateEmbeddingDimensions (JArray v) d = Inl e"
            by (auto simp: validate_if_present_def split: option.splits)
          moreover from this have "v \<in> set (supplied_vectors options)"
            by (simp add: supplied_vectors_def)
          moreover have "vectors_validate options (Some d) = Inl e"
            using d main s1 s2 Inl by (simp add: vectors_validate_def sv)
          ultimately show ?thesis by blast
        next
          case s3: (Inr u3)
          from bad obtain v where v: "v \<in> set (supplied_vectors options)"
            and f: "validateEmbeddingDimensions (JArray v) d \<noteq> Inr ()" by blast
          from v have "v = q \<or> querySection1 options = Some v \<or> querySection2 options = Some v
              \<or> querySection3 options = Some v"
            using q by (auto simp: supplied_vectors_def split: option.splits)
          then have "validateEmbeddingDimensions (JArray v) d = Inr ()"
            using main s1 s2 s3
            by (elim disjE) (simp_all add: validate_if_present_def del: validateEmbeddingDimensions.simps)
          with f show ?thesis by simp
        qed
      qed
    qed
  qed
qed

text \<open>
  Claim C4 says that on every validation failure the validation error reaches the
  caller unchanged. A failure of the dimension validator is an \<^verbatim>\<open>EmbeddingError\<close>,
  which the \<^verbatim>\<open>catch\<close> block of the search methods does not let through: for a query
  vector of two components and three expected dimensions the validator throws its
  DIMENSION_MISMATCH error, and the caller gets a \<^verbatim>\<open>SearchError\<close> without code in its
  place. No call is made.
\<close>

theorem validation_error_wrapped_counterexample:
  "validateEmbeddingDimensions (JArray (dense [JNumber (Fin 0.5), JNumber (Fin 0.25)])) (Fin 3)
     = Inl (EmbeddingError
         [Txt ''Expected '', Num (Fin 3), Txt '' dimensions but got '', Num (Fin 2)]
         (Some ''DIMENSION_MISMATCH''))
   \<and> result (search empty_backend short_query (Some (Fin 3)))
     = Inl (SearchError [Txt search_unexpected] None)
   \<and> result (search empty_backend short_query (Some (Fin 3)))
     \<noteq> Inl (EmbeddingError
         [Txt ''Expected '', Num (Fin 3), Txt '' dimensions but got '', Num (Fin 2)]
         (Some ''DIMENSION_MISMATCH''))
   \<and> rpc_calls (search empty_backend short_query (Some (Fin 3))) = []"
  by (simp add: search_def search_validate_def short_query_def rethrow_def dense_def)

text \<open>
  Claim C4, amended. When the input of \<^verbatim>\<open>search\<close> or \<^verbatim>\<open>searchWeighted\<close> fails
  validation, the backend is never called and nothing is retried. A missing or empty
  main query vector and an all-zero weight total are raised to the caller as the
  \<^verbatim>\<open>ValidationError\<close> that was thrown. A failure of the dimension validator on a
  supplied vector (with \<^verbatim>\<open>expectedDimensions\<close> given) is raised as a new
  \<^verbatim>\<open>SearchError\<close> without code. A run that is \<open>failed_run e\<close> has made no call and no
  retry attempt and has logged nothing.
\<close>

theorem validation_fails_fast:
  "((queryEmbedding options = None \<or> queryEmbedding options = Some []) \<longrightarrow>
       search client options ed = failed_run query_required)
   \<and> ((queryEmbedding woptions = None \<or> queryEmbedding woptions = Some []) \<longrightarrow>
       searchWeighted client woptions ed = failed_run query_required)
   \<and> (queryEmbedding options = Some q \<and> q \<noteq> [] \<and> js_truthy_num (Some d)
        \<and> validateEmbeddingDimensions (JArray q) d \<noteq> Inr () \<longrightarrow>
       (\<exists>m. search client options (Some d) = failed_run (SearchError m None)))
   \<and> (queryEmbedding woptions = Some wq \<and> wq \<noteq> [] \<and> js_truthy_num (Some d)
        \<and> (\<exists>v \<in> set (supplied_vectors woptions). validateEmbeddingDimensions (JArray v) d \<noteq> Inr ()) \<longrightarrow>
       (\<exists>m. searchWeighted client woptions (Some d) = failed_run (SearchError m None)))
   \<and> (vectors_validate woptions ed = Inr () \<and> js_strict_eq (totalWeight woptions) (Fin 0) \<longrightarrow>
       searchWeighted client woptions ed = failed_run weights_zero)"
proof -
  have a: "search client options ed = failed_run query_required"
    if "queryEmbedding options = None \<or> queryEmbedding options = Some []"
    using search_invalid [OF search_validate_missing [OF that], of client]
    by (simp add: query_required_kept)
  have b: "searchWeighted client woptions ed = failed_run query_required"
    if "queryEmbedding woptions = None \<or> queryEmbedding woptions = Some []"
  proof -
    have "weighted_validate woptions ed = Inl query_required"
      by (simp add: weighted_validate_def vectors_validate_def search_validate_missing [OF that])
    from searchWeighted_invalid [OF this, of client] show ?thesis
      by (simp add: query_required_kept)
  qed
  have c: "\<exists>m. search client options (Some d) = failed_run (SearchError m None)"
    if "queryEmbedding options = Some q" "q \<noteq> []" "js_truthy_num (Some d)"
      "validateEmbeddingDimensions (JArray q) d \<noteq> Inr ()"
  proof -
    from that(4) obtain e where e: "validateEmbeddingDimensions (JArray q) d = Inl e"
      by (auto simp: not_Inr_unit)
    have "search_validate options (Some d) = Inl e"
      using search_validate_present [OF that(1,2,3)] e by simp
    from search_invalid [OF this, of client] show ?thesis
      unfolding rethrow_validator_error [OF e] by blast
  qed
  have d: "\<exists>m. searchWeighted client woptions (Some d) = failed_run (SearchError m None)"
    if "queryEmbedding woptions = Some wq" "wq \<noteq> []" "js_truthy_num (Some d)"
      "\<exists>v \<in> set (supplied_vectors woptions). validateEmbeddingDimensions (JArray v) d \<noteq> Inr ()"
  proof -
    from vectors_validate_fails [OF that] obtain v e' where
      v: "v \<in> set (supplied_vectors woptions)"
      and e': "validateEmbeddingDimensions (JArray v) d = Inl e'"
      and vv: "vectors_validate woptions (Some d) = Inl e'" by blast
    have "weighted_validate woptions (Some d) = Inl e'"
      by (simp add: weighted_validate_def vv)
    from searchWeighted_invalid [OF this, of client] show ?thesis
      unfolding rethrow_validator_error [OF e'] by blast
  qed
  have z: "searchWeighted client woptions ed = failed_run weights_zero"
    if "vectors_validate woptions ed = Inr ()" "js_strict_eq (totalWeight woptions) (Fin 0)"
  proof -
    have "weighted_validate woptions ed = Inl weights_zero"
      using that by (simp add: weighted_validate_def)
    from searchWeighted_invalid [OF this, of client] show ?thesis
      by (simp add: weights_zero_kept)
  qed
  from a b c d z show ?thesis by blast
qed

theorem validation_fails_fast_witness:
  "search empty_backend empty_query None = failed_run query_required
   \<and> searchWeighted empty_backend missing_query None = failed_run query_required
   \<and> (\<exists>m. search empty_backend short_query (Some (Fin 3)) = failed_run (SearchError m None))
   \<and> (\<exists>m. searchWeighted empty_backend bad_section_query (Some (Fin 3)) = failed_run (SearchError m None))
   \<and> searchWeighted empty_backend all_zero_weights None = failed_run weights_zero"
proof -
  have qa: "queryEmbedding empty_query = None \<or> queryEmbedding empty_query = Some []"
    by (simp add: empty_query_def)
  have qb: "queryEmbedding missing_query = None \<or> queryEmbedding missing_query = Some []"
    by (simp add: missing_query_def)
  have a: "search empty_backend empty_query None = failed_run query_required"
    using validation_fails_fast [where options = empty_query and client = empty_backend
        and ed = None, THEN conjunct1] qa
    by blast
  have b: "searchWeighted empty_backend missing_query None = failed_run query_required"
    using validation_fails_fast [where woptions = missing_query and client = empty_backend
        and ed = None, THEN conjunct2, THEN conjunct1] qb
    by blast
  have qc: "queryEmbedding short_query = Some (dense [JNumber (Fin 0.5), JNumber (Fin 0.25)])
      \<and> dense [JNumber (Fin 0.5), JNumber (Fin 0.25)] \<noteq> [] \<and> js_truthy_num (Some (Fin 3))
      \<and> validateEmbeddingDimensions (JArray (dense [JNumber (Fin 0.5), JNumber (Fin 0.25)])) (Fin 3)
        \<noteq> Inr ()"
    by (simp add: short_query_def dense_def)
  have c: "\<exists>m. search empty_backend short_query (Some (Fin 3)) = failed_run (SearchError m None)"
    using validation_fails_fast [where options = short_query and client = empty_backend
        and d = "Fin 3", THEN conjunct2, THEN conjunct2, THEN conjunct1, rule_format, OF qc] .
  have sup: "supplied_vectors bad_section_query =
      [dense [JNumber (Fin 0.5), JNumber (Fin 0.25), JNumber (Fin 0.125)], dense [JNumber (Fin 1)]]"
    by (simp add: supplied_vectors_def bad_section_query_def weighted_query_def)
  have qd: "queryEmbedding bad_section_query
        = Some (dense [JNumber (Fin 0.5), JNumber (Fin 0.25), JNumber (Fin 0.125)])
      \<and> dense [JNumber (Fin 0.5), JNumber (Fin 0.25), JNumber (Fin 0.125)] \<noteq> []
      \<and> js_truthy_num (Some (Fin 3))
      \<and> (\<exists>v \<in> set (supplied_vectors bad_section_query).
            validateEmbeddingDimensions (JArray v) (Fin 3) \<noteq> Inr ())"
    unfolding sup by (simp add: bad_section_query_def weighted_query_def dense_def)
  have d: "\<exists>m. searchWeighted empty_backend bad_section_query (Some (Fin 3))
      = failed_run (SearchError m None)"
    using validation_fails_fast [where woptions = bad_section_query and client = empty_backend
        and d = "Fin 3", THEN conjunct2, THEN conjunct2, THEN conjunct2, THEN conjunct1,
        rule_format, OF qd] .
  have pz: "providedWeights all_zero_weights = [Fin 0, Fin 0, Fin 0, Fin 0]"
    unfolding all_zero_weights_def by (rule weighted_query_weights)
  have "vectors_validate all_zero_weights None = Inr ()"
    unfolding all_zero_weights_def by (rule weighted_query_valid)
  moreover have "js_strict_eq (totalWeight all_zero_weights) (Fin 0)"
    by (simp add: totalWeight_def pz)
  ultimately have qe: "vectors_validate all_zero_weights None = Inr ()
      \<and> js_strict_eq (totalWeight all_zero_weights) (Fin 0)" by (rule conjI)
  have e: "searchWeighted empty_backend all_zero_weights None = failed_run weights_zero"
    using validation_fails_fast [where woptions = all_zero_weights and client = empty_backend
        and ed = None, THEN conjunct2, THEN conjunct2, THEN conjunct2, THEN conjunct2,
        rule_format, OF qe] .
  from a b c d e show ?thesis by blast
qed


section \<open>Properties of batch insert\<close>

text \<open>
  A retried operation that ends with a value: its last attempt gave the value, and every
  attempt before it failed.
\<close>

lemma withRetry_loop_success:
  "withRetry_loop operation options a lastError = (Inr v, ev) \<Longrightarrow>
     \<exists>pre k. ev = pre @ [Attempt k] \<and> operation k = Inr v
        \<and> (\<forall>i. Attempt i \<in> set pre \<longrightarrow> (\<exists>x. operation i = Inl x))"
proof (induction "nat (opt_maxRetries options + 1 - int a)" arbitrary: a lastError ev)
  case 0
  then have "\<not> int a \<le> opt_maxRetries options" by simp
  with 0(2) show ?case
    by (subst (asm) withRetry_loop.simps) (simp split: option.splits)
next
  case (Suc n)
  then have le: "int a \<le> opt_maxRetries options" by simp
  show ?case
  proof (cases "operation a")
    case (Inr v')
    with Suc.prems le have "ev = [] @ [Attempt a] \<and> operation a = Inr v"
      by (subst (asm) withRetry_loop.simps) simp
    then show ?thesis by fastforce
  next
    case (Inl x)
    with Suc.prems le have ne: "int a \<noteq> opt_maxRetries options"
      by (subst (asm) withRetry_loop.simps) (auto split: if_splits)
    have n: "n = nat (opt_maxRetries options + 1 - int (a + 1))"
      using Suc.hyps(2) by simp
    obtain r' ev' where rec: "withRetry_loop operation options (a + 1) (Some x) = (r', ev')"
      by (cases "withRetry_loop operation options (a + 1) (Some x)")
    from Suc.prems le ne Inl rec
    have "r' = Inr v \<and> (\<exists>mid. ev = Attempt a # mid @ ev' \<and> (\<forall>i. Attempt i \<notin> set mid))"
      by (subst (asm) withRetry_loop.simps) (auto split: option.splits)
    then obtain mid where r': "r' = Inr v" and ev: "ev = Attempt a # mid @ ev'"
      and mid: "\<forall>i. Attempt i \<notin> set mid" by blast
    from Suc.hyps(1) [OF n rec [unfolded r']] obtain pre k where
      "ev' = pre @ [Attempt k]" "operation k = Inr v"
      "\<forall>i. Attempt i \<in> set pre \<longrightarrow> (\<exists>x. operation i = Inl x)" by blast
    then have "ev = (Attempt a # mid @ pre) @ [Attempt k] \<and> operation k = Inr v
        \<and> (\<forall>i. Attempt i \<in> set (Attempt a # mid @ pre) \<longrightarrow> (\<exists>x. operation i = Inl x))"
      using ev mid Inl by auto
    then show ?thesis by blast
  qed
qed

lemma observed_append: "observed db (xs @ ys) = observed db xs @ observed db ys"
  by (simp add: observed_def)

lemma observed_failed_attempts:
  assumes "\<forall>i. Attempt i \<in> set pre \<longrightarrow> (\<exists>x. insert_result (db (c + i) rows) = Inl x)"
  shows "observed db (map (insert_event c rows) pre) = []"
  using assms
proof (induction pre)
  case Nil
  show ?case by (simp add: observed_def)
next
  case (Cons e pre)
  then have IH: "observed db (map (insert_event c rows) pre) = []" by simp
  show ?case
  proof (cases e)
    case (Attempt i)
    with Cons.prems obtain x where "insert_result (db (c + i) rows) = Inl x" by auto
    with Attempt IH show ?thesis by (simp add: observed_def)
  next
    case (OnRetry n err)
    with IH show ?thesis by (simp add: observed_def)
  next
    case (Sleep d)
    with IH show ?thesis by (simp add: observed_def)
  qed
qed

lemma observed_retried_insert:
  assumes "withRetry (\<lambda>k. insert_result (db (c + k) rows)) options = (Inr (Some data), ev)"
  shows "observed db (map (insert_event c rows) ev) = [Inserted rows]"
proof -
  from withRetry_loop_success [OF assms [unfolded withRetry_def]] obtain pre k where
    ev: "ev = pre @ [Attempt k]" and ok: "insert_result (db (c + k) rows) = Inr (Some data)"
    and pre: "\<forall>i. Attempt i \<in> set pre \<longrightarrow> (\<exists>x. insert_result (db (c + i) rows) = Inl x)"
    by blast
  have "observed db (map (insert_event c rows) [Attempt k]) = [Inserted rows]"
    using ok by (simp add: observed_def)
  then show ?thesis
    unfolding ev
    by (simp add: observed_append observed_failed_attempts [where db = db and c = c and rows = rows, OF pre])
qed

lemma insert_chunk_cases:
  "(\<exists>e ev. insert_chunk db documents batchSize onProgress st = Stop (Inl e) ev)
   \<or> (\<exists>st'. insert_chunk db documents batchSize onProgress st = Continue st'
         \<and> index st' = index st + batchSize
         \<and> completed st' = completed st + length (js_slice documents (index st) (index st + batchSize))
         \<and> observed db (events st') = observed db (events st) @
             (case onProgress of
                None \<Rightarrow> [Inserted (map insert_payload (js_slice documents (index st) (index st + batchSize)))]
              | Some callback \<Rightarrow>
                  [Inserted (map insert_payload (js_slice documents (index st) (index st + batchSize))),
                   Reported (completed st + length (js_slice documents (index st) (index st + batchSize)))
                     (length documents)]))"
proof -
  let ?rows = "map insert_payload (js_slice documents (index st) (index st + batchSize))"
  obtain r ev where w: "withRetry (\<lambda>k. insert_result (db (calls st + k) ?rows)) manager_retry_options = (r, ev)"
    by (cases "withRetry (\<lambda>k. insert_result (db (calls st + k) ?rows)) manager_retry_options")
  show ?thesis
  proof (cases r)
    case (Inl e)
    then show ?thesis using w by (simp add: insert_chunk_def Let_def)
  next
    case (Inr data)
    show ?thesis
    proof (cases data)
      case None
      then show ?thesis using w Inr by (simp add: insert_chunk_def Let_def)
    next
      case (Some batchResult)
      have obs: "observed db (map (insert_event (calls st) ?rows) ev) = [Inserted ?rows]"
        using observed_retried_insert [where db = db and c = "calls st" and rows = ?rows,
            OF w [unfolded Inr Some]] .
      show ?thesis
        using w Inr Some obs
        by (auto simp: insert_chunk_def Let_def observed_append observed_def split: option.splits)
    qed
  qed
qed


lemma chunk_count_less: "0 < b \<Longrightarrow> (j < chunk_count n b) = (j * b < n)"
proof -
  assume b: "0 < b"
  have "(j < chunk_count n b) = (Suc j \<le> (n + b - 1) div b)"
    by (simp add: chunk_count_def Suc_le_eq)
  also have "\<dots> = (Suc j * b \<le> n + b - 1)"
    using b by (simp add: less_eq_div_iff_mult_less_eq)
  also have "\<dots> = (j * b < n)"
    using b by auto
  finally show ?thesis .
qed

lemma js_slice_nat:
  assumes "i < length xs"
  shows "js_slice xs (int i) (int i + int b) = take b (drop i xs)"
proof (cases "i + b \<le> length xs")
  case True
  then have "min (int i + int b) (int (length xs)) = int (i + b)" by simp
  moreover have "min (int i) (int (length xs)) = int i" using assms by simp
  moreover have "nat (int (i + b) - int i) = b" by simp
  ultimately show ?thesis
    by (simp add: js_slice_def Let_def del: of_nat_add)
next
  case False
  then have "min (int i + int b) (int (length xs)) = int (length xs)" by simp
  moreover have "min (int i) (int (length xs)) = int i" using assms by simp
  moreover have "nat (int (length xs) - int i) = length xs - i" by simp
  moreover have "take (length xs - i) (drop i xs) = take b (drop i xs)"
    using False by simp
  ultimately show ?thesis
    by (simp add: js_slice_def Let_def del: of_nat_add)
qed

lemma js_slice_chunk:
  "j * b < length xs \<Longrightarrow> js_slice xs (int (j * b)) (int (j * b) + int b) = chunk xs b j"
  unfolding chunk_def by (rule js_slice_nat)

lemma length_chunk: "length (chunk xs b j) = min b (length xs - j * b)"
  by (simp add: chunk_def)

lemma min_step: "m < n \<Longrightarrow> min m n + min b (n - m) = min (m + b) (n :: nat)"
  by arith

lemma completed_after_chunk:
  assumes "j * b < n"
  shows "min (j * b) n + min b (n - j * b) = min (Suc j * b) n"
  using min_step [OF assms, of b] by (simp add: add.commute)

lemma index_less:
  "index st = int (j * b) \<Longrightarrow> (index st < int (length documents)) = (j * b < length documents)"
  by (simp only: of_nat_less_iff)

lemma insertBatch_loop_marks:
  assumes b: "0 < b"
  shows "index st = int (j * b) \<Longrightarrow> completed st = min (j * b) (length documents) \<Longrightarrow>
     \<exists>r ev. insertBatch_loop db documents (int b) onProgress st = Some (r, ev)
        \<and> (\<forall>rows. r = Inr rows \<longrightarrow>
              observed db ev = observed db (events st) @
                concat (map (chunk_marks documents b onProgress) [j..<chunk_count (length documents) b]))"
proof (induction "chunk_count (length documents) b - j" arbitrary: j st)
  case 0
  then have "\<not> j < chunk_count (length documents) b" by simp
  then have "\<not> j * b < length documents"
    using chunk_count_less [OF b] by simp
  then have stop: "\<not> index st < int (length documents)"
    using index_less [OF 0(2), of documents] by simp
  have empty: "[j..<chunk_count (length documents) b] = []"
    using 0(1) by simp
  show ?case
    using stop by (subst insertBatch_loop.simps) (simp add: empty)
next
  case (Suc k)
  then have jc: "j < chunk_count (length documents) b" by simp
  then have lt: "j * b < length documents"
    using chunk_count_less [OF b] by simp
  then have go: "index st < int (length documents)"
    using index_less [OF Suc.prems(1), of documents] by simp
  have slice: "js_slice documents (index st) (index st + int b) = chunk documents b j"
    using js_slice_chunk [OF lt] Suc.prems by simp
  have up: "[j..<chunk_count (length documents) b] = j # [Suc j..<chunk_count (length documents) b]"
    using jc by (simp add: upt_conv_Cons)
  from insert_chunk_cases [of db documents "int b" onProgress st]
  show ?case
  proof (elim disjE exE conjE)
    fix e ev
    assume "insert_chunk db documents (int b) onProgress st = Stop (Inl e) ev"
    then show ?thesis
      using go by (subst insertBatch_loop.simps) simp
  next
    fix st'
    assume cont: "insert_chunk db documents (int b) onProgress st = Continue st'"
      and idx: "index st' = index st + int b"
      and comp: "completed st' = completed st
          + length (js_slice documents (index st) (index st + int b))"
      and obs: "observed db (events st') = observed db (events st) @
             (case onProgress of
                None \<Rightarrow> [Inserted (map insert_payload (js_slice documents (index st) (index st + int b)))]
              | Some callback \<Rightarrow>
                  [Inserted (map insert_payload (js_slice documents (index st) (index st + int b))),
                   Reported (completed st + length (js_slice documents (index st) (index st + int b)))
                     (length documents)])"
    have idx': "index st' = int (Suc j * b)"
      using idx Suc.prems by (simp add: algebra_simps)
    have after: "completed st + length (chunk documents b j) = min (Suc j * b) (length documents)"
      unfolding Suc.prems(2) length_chunk by (rule completed_after_chunk [OF lt])
    have comp': "completed st' = min (Suc j * b) (length documents)"
      using comp unfolding slice after .
    have obs': "observed db (events st') =
        observed db (events st) @ chunk_marks documents b onProgress j"
      using obs unfolding slice after
      by (simp add: chunk_marks_def split: option.splits)
    have k: "k = chunk_count (length documents) b - Suc j"
      using Suc.hyps(2) by simp
    from Suc.hyps(1) [OF k idx' comp'] obtain r ev where
      run: "insertBatch_loop db documents (int b) onProgress st' = Some (r, ev)"
      and m: "\<forall>rows. r = Inr rows \<longrightarrow>
              observed db ev = observed db (events st') @
                concat (map (chunk_marks documents b onProgress)
                  [Suc j..<chunk_count (length documents) b])"
      by blast
    have "insertBatch_loop db documents (int b) onProgress st = Some (r, ev)"
      using go cont run by (subst insertBatch_loop.simps) simp
    moreover have "\<forall>rows. r = Inr rows \<longrightarrow>
              observed db ev = observed db (events st) @
                concat (map (chunk_marks documents b onProgress)
                  [j..<chunk_count (length documents) b])"
      using m by (simp add: obs' up)
    ultimately show ?thesis by blast
  qed
qed

lemma reported_append: "reported (xs @ ys) = reported xs @ reported ys"
  by (induction xs rule: reported.induct) simp_all

lemma reported_observed: "reported (observed db ev) = progress_args ev"
proof (induction ev)
  case Nil
  show ?case by (simp add: observed_def)
next
  case (Cons e ev)
  then have IH: "reported (concat (map (marks db) ev)) = progress_args ev"
    by (simp add: observed_def)
  show ?case
    by (cases e) (simp_all add: observed_def reported_append IH split: sum.splits option.splits)
qed

lemma reported_marks:
  "reported (concat (map (chunk_marks documents b onProgress) js)) =
     (case onProgress of None \<Rightarrow> []
      | Some callback \<Rightarrow> map (\<lambda>j. (min ((j + 1) * b) (length documents), length documents)) js)"
  by (induction js) (simp_all add: chunk_marks_def reported_append split: option.splits)

lemma min_less_step: "y < n \<Longrightarrow> x \<le> y \<Longrightarrow> y < z \<Longrightarrow> min x n < min z (n :: nat)"
  by arith

lemma progress_increasing:
  assumes b: "0 < b"
  shows "sorted_wrt (<) (map (\<lambda>j. min ((j + 1) * b) n) [0..<chunk_count n b])"
proof -
  have "min ((i + 1) * b) n < min ((j + 1) * b) n"
    if "i < j" "j < chunk_count n b" for i j
  proof -
    from that(2) have y: "j * b < n" using chunk_count_less [OF b] by simp
    from that(1) have "i + 1 \<le> j" by simp
    then have x: "(i + 1) * b \<le> j * b" by (rule mult_le_mono1)
    have z: "j * b < (j + 1) * b" using b by simp
    from y x z show ?thesis by (rule min_less_step)
  qed
  then show ?thesis
    by (simp add: sorted_wrt_iff_nth_less)
qed

lemma chunk_count_covers: "0 < b \<Longrightarrow> n \<le> chunk_count n b * b"
  using chunk_count_less [of b "chunk_count n b" n] by simp

lemma chunk_count_pos: "0 < b \<Longrightarrow> 0 < n \<Longrightarrow> 0 < chunk_count n b"
  using chunk_count_less [of b 0 n] by simp

lemma last_progress:
  assumes b: "0 < b" and n: "0 < n"
  shows "last (map (\<lambda>j. (min ((j + 1) * b) n, n)) [0..<chunk_count n b]) = (n, n)"
proof -
  from chunk_count_pos [OF b n] obtain c where c: "chunk_count n b = Suc c"
    by (cases "chunk_count n b") auto
  have "n \<le> Suc c * b" using chunk_count_covers [OF b, of n] c by simp
  then show ?thesis by (simp add: c)
qed

lemma insertBatch_marks:
  assumes bs: "(case batchSize of None \<Rightarrow> 100 | Some x \<Rightarrow> x) = int b" and b: "0 < b"
  shows "\<exists>r ev. insertBatch db documents batchSize onProgress = Some (r, ev)
      \<and> (\<forall>rows. r = Inr rows \<longrightarrow>
           observed db ev = concat (map (chunk_marks documents b onProgress)
             [0..<chunk_count (length documents) b]))"
proof (cases "length documents = 0")
  case True
  then have "chunk_count (length documents) b = 0"
    using b by (simp add: chunk_count_def)
  with True show ?thesis by (simp add: insertBatch_def observed_def)
next
  case False
  let ?st = "\<lparr>index = 0, results = [], completed = 0, calls = 0, events = []\<rparr>"
  have "index ?st = int (0 * b)" and "completed ?st = min (0 * b) (length documents)"
    by simp_all
  from insertBatch_loop_marks [OF b this, where db = db and onProgress = onProgress]
  obtain r ev where run: "insertBatch_loop db documents (int b) onProgress ?st = Some (r, ev)"
    and m: "\<forall>rows. r = Inr rows \<longrightarrow> observed db ev =
        concat (map (chunk_marks documents b onProgress) [0..<chunk_count (length documents) b])"
    by (auto simp: observed_def)
  show ?thesis
  proof (cases r)
    case (Inl e)
    then show ?thesis using False run by (simp add: insertBatch_def bs)
  next
    case (Inr rows)
    then show ?thesis using False run m by (simp add: insertBatch_def bs)
  qed
qed

lemma insert_chunk_accepting:
  "insert_chunk accepting_db documents bs (Some quiet_progress) st =
     Continue
       \<lparr>index = index st + bs,
        results = results st @ map insert_payload (js_slice documents (index st) (index st + bs)),
        completed = completed st + length (js_slice documents (index st) (index st + bs)),
        calls = calls st + 1,
        events = events st @
          [InsertAttempt (calls st) (map insert_payload (js_slice documents (index st) (index st + bs))),
           Progress (completed st + length (js_slice documents (index st) (index st + bs)))
             (length documents)]\<rparr>"
proof -
  have "withRetry (\<lambda>k. insert_result (accepting_db (calls st + k)
          (map insert_payload (js_slice documents (index st) (index st + bs)))))
        manager_retry_options
      = (Inr (Some (map insert_payload (js_slice documents (index st) (index st + bs)))), [Attempt 0])"
    by (rule withRetry_first_success) (simp_all add: manager_budget accepting_db_def)
  then show ?thesis
    by (simp add: insert_chunk_def Let_def quiet_progress_def)
qed

lemma insert_chunk_continues:
  "\<exists>st'. insert_chunk accepting_db documents bs (Some quiet_progress) st = Continue st'
      \<and> index st' = index st + bs"
  by (simp add: insert_chunk_accepting)

lemma insertBatch_loop_accepting:
  "insertBatch_loop db documents bs onProgress st = Some y \<Longrightarrow>
     db = accepting_db \<longrightarrow> onProgress = Some quiet_progress \<longrightarrow> (\<exists>rows. fst y = Inr rows)"
proof (erule insertBatch_loop.raw_induct [rotated 1,
      where P = "\<lambda>db documents bs onProgress st y.
        db = accepting_db \<longrightarrow> onProgress = Some quiet_progress \<longrightarrow> (\<exists>rows. fst y = Inr rows)"])
  fix loop db documents bs onProgress st y
  assume IH: "\<And>db documents bs onProgress st y.
      loop db documents bs onProgress st = Some y \<Longrightarrow>
      db = accepting_db \<longrightarrow> onProgress = Some quiet_progress \<longrightarrow> (\<exists>rows. fst y = Inr rows)"
    and body: "(if index st < int (length documents)
          then case insert_chunk db documents bs onProgress st of
               Stop r ev \<Rightarrow> Some (r, ev)
               | Continue st' \<Rightarrow> loop db documents bs onProgress st'
          else Some (Inr (results st), events st)) = Some y"
  show "db = accepting_db \<longrightarrow> onProgress = Some quiet_progress \<longrightarrow> (\<exists>rows. fst y = Inr rows)"
  proof (intro impI)
    assume db: "db = accepting_db" and cb: "onProgress = Some quiet_progress"
    show "\<exists>rows. fst y = Inr rows"
    proof (cases "index st < int (length documents)")
      case False
      with body show ?thesis by auto
    next
      case True
      from insert_chunk_continues [of documents bs st] obtain st' where
        c: "insert_chunk accepting_db documents bs (Some quiet_progress) st = Continue st'" by blast
      from body True c have "loop db documents bs onProgress st' = Some y"
        by (simp add: db cb)
      from IH [OF this] db cb show ?thesis by simp
    qed
  qed
qed

text \<open>
  With the batch size 0 the index stays at 0: while the inserts succeed and the callback
  returns, the loop does not end, and the batch insert does not return.
\<close>

lemma insertBatch_loop_zero_batch:
  "insertBatch_loop db documents bs onProgress st = Some y \<Longrightarrow>
     \<not> (db = accepting_db \<and> onProgress = Some quiet_progress \<and> bs = 0
        \<and> index st < int (length documents))"
proof (erule insertBatch_loop.raw_induct [rotated 1,
      where P = "\<lambda>db documents bs onProgress st y.
        \<not> (db = accepting_db \<and> onProgress = Some quiet_progress \<and> bs = 0
        \<and> index st < int (length documents))"])
  fix loop db documents bs onProgress st y
  assume IH: "\<And>db documents bs onProgress st y.
      loop db documents bs onProgress st = Some y \<Longrightarrow>
      \<not> (db = accepting_db \<and> onProgress = Some quiet_progress \<and> bs = 0
        \<and> index st < int (length documents))"
    and body: "(if index st < int (length documents)
          then case insert_chunk db documents bs onProgress st of
               Stop r ev \<Rightarrow> Some (r, ev)
               | Continue st' \<Rightarrow> loop db documents bs onProgress st'
          else Some (Inr (results st), events st)) = Some y"
  show "\<not> (db = accepting_db \<and> onProgress = Some quiet_progress \<and> bs = 0
        \<and> index st < int (length documents))"
  proof
    assume a: "db = accepting_db \<and> onProgress = Some quiet_progress \<and> bs = 0
        \<and> index st < int (length documents)"
    from insert_chunk_continues [of documents 0 st]
    obtain st' where c: "insert_chunk accepting_db documents 0 (Some quiet_progress) st = Continue st'"
      and i': "index st' = index st + 0" by blast
    from body a c have "loop db documents bs onProgress st' = Some y"
      by simp
    from IH [OF this] a i' show False by simp
  qed
qed

lemma insertBatch_zero_batch:
  "insertBatch accepting_db [sample_document] (Some 0) (Some quiet_progress) = None"
proof (cases "insertBatch_loop accepting_db [sample_document] 0 (Some quiet_progress)
    \<lparr>index = 0, results = [], completed = 0, calls = 0, events = []\<rparr>")
  case None
  then show ?thesis by (simp add: insertBatch_def)
next
  case (Some y)
  from insertBatch_loop_zero_batch [OF this] show ?thesis by simp
qed

text \<open>
  Claim C7 speaks of every chunk size. With the chunk size 0 every chunk is empty and the
  loop index does not advance: the first round inserts no document and reports
  \<open>(0, 1)\<close> for one document, it leaves the loop where it was, and the call does not
  return. The reported counts do not increase and never reach the number of documents.
\<close>

theorem insertBatch_zero_size_counterexample:
  "insert_chunk accepting_db [sample_document] 0 (Some quiet_progress)
       \<lparr>index = 0, results = [], completed = 0, calls = 0, events = []\<rparr>
     = Continue \<lparr>index = 0, results = [], completed = 0, calls = 1,
                 events = [InsertAttempt 0 [], Progress 0 1]\<rparr>
   \<and> insertBatch accepting_db [sample_document] (Some 0) (Some quiet_progress) = None"
  by (simp add: insert_chunk_accepting js_slice_def insertBatch_zero_batch)

text \<open>
  Claim C7, amended. Let the chunk size \<open>b\<close> be a positive integer and let there be \<open>n\<close>
  documents. The batch insert returns. When it returns the inserted rows, that is when
  every chunk insert succeeded, the successful inserts and the progress calls are, in
  the order they happened: the insert of chunk 0 (the objects built from the first \<open>b\<close>
  documents), its progress call, the insert of chunk 1, its progress call, and so on for
  all the chunks of \<open>b\<close> documents (the last one may be shorter). With a callback
  supplied there is exactly one call after each chunk's insert; the call after chunk
  \<open>j\<close> has the arguments \<open>(min ((j + 1) * b) n, n)\<close>, the completed counts are strictly
  increasing and the last one is \<open>n\<close>. For 250 documents and chunk size 100 the calls are
  (100, 250), (200, 250), (250, 250).
\<close>

theorem insertBatch_progress:
  assumes bs: "(case batchSize of None \<Rightarrow> 100 | Some x \<Rightarrow> x) = int b" and b: "0 < b"
  shows "\<exists>r ev. insertBatch db documents batchSize onProgress = Some (r, ev)
      \<and> (\<forall>rows. r = Inr rows \<longrightarrow>
           observed db ev = concat (map (chunk_marks documents b onProgress)
             [0..<chunk_count (length documents) b])
         \<and> progress_args ev =
             (case onProgress of None \<Rightarrow> []
              | Some callback \<Rightarrow>
                  map (\<lambda>j. (min ((j + 1) * b) (length documents), length documents))
                    [0..<chunk_count (length documents) b])
         \<and> sorted_wrt (<) (map fst (progress_args ev))
         \<and> (onProgress \<noteq> None \<and> documents \<noteq> [] \<longrightarrow>
               last (progress_args ev) = (length documents, length documents)))"
proof -
  from insertBatch_marks [OF bs b, where db = db and documents = documents and onProgress = onProgress]
  obtain r ev where run: "insertBatch db documents batchSize onProgress = Some (r, ev)"
    and m: "\<forall>rows. r = Inr rows \<longrightarrow> observed db ev =
        concat (map (chunk_marks documents b onProgress) [0..<chunk_count (length documents) b])"
    by blast
  have rest: "observed db ev = concat (map (chunk_marks documents b onProgress)
             [0..<chunk_count (length documents) b])
         \<and> progress_args ev =
             (case onProgress of None \<Rightarrow> []
              | Some callback \<Rightarrow>
                  map (\<lambda>j. (min ((j + 1) * b) (length documents), length documents))
                    [0..<chunk_count (length documents) b])
         \<and> sorted_wrt (<) (map fst (progress_args ev))
         \<and> (onProgress \<noteq> None \<and> documents \<noteq> [] \<longrightarrow>
               last (progress_args ev) = (length documents, length documents))"
    if "r = Inr rows" for rows
  proof -
    from m that have marks: "observed db ev = concat (map (chunk_marks documents b onProgress)
             [0..<chunk_count (length documents) b])" by simp
    have args: "progress_args ev =
             (case onProgress of None \<Rightarrow> []
              | Some callback \<Rightarrow>
                  map (\<lambda>j. (min ((j + 1) * b) (length documents), length documents))
                    [0..<chunk_count (length documents) b])"
      using reported_observed [of db ev] unfolding marks reported_marks by simp
    have incr: "sorted_wrt (<) (map fst (progress_args ev))"
    proof (cases onProgress)
      case None
      then show ?thesis by (simp add: args)
    next
      case (Some callback)
      have "map fst (progress_args ev) =
          map (\<lambda>j. min ((j + 1) * b) (length documents)) [0..<chunk_count (length documents) b]"
        by (simp add: args Some comp_def)
      then show ?thesis using progress_increasing [OF b, of "length documents"] by simp
    qed
    have fin: "last (progress_args ev) = (length documents, length documents)"
      if "onProgress \<noteq> None" "documents \<noteq> []"
    proof -
      from that(1) obtain callback where "onProgress = Some callback" by auto
      moreover from that(2) have "0 < length documents" by simp
      ultimately show ?thesis using last_progress [OF b, of "length documents"]
        by (simp add: args)
    qed
    from marks args incr fin show ?thesis by blast
  qed
  from run rest show ?thesis by blast
qed

theorem insertBatch_progress_witness:
  "\<exists>rows ev. insertBatch accepting_db (replicate 250 sample_document) (Some 100) (Some quiet_progress)
       = Some (Inr rows, ev)
     \<and> observed accepting_db ev =
         [Inserted (replicate 100 (insert_payload sample_document)), Reported 100 250,
          Inserted (replicate 100 (insert_payload sample_document)), Reported 200 250,
          Inserted (replicate 50 (insert_payload sample_document)), Reported 250 250]
     \<and> progress_args ev = [(100, 250), (200, 250), (250, 250)]"
proof -
  have bs: "(case Some 100 of None \<Rightarrow> 100 | Some x \<Rightarrow> x) = int 100" and b: "(0 :: nat) < 100"
    by simp_all
  from insertBatch_progress [OF bs b, where db = accepting_db
      and documents = "replicate 250 sample_document" and onProgress = "Some quiet_progress"]
  obtain r ev where run: "insertBatch accepting_db (replicate 250 sample_document) (Some 100)
        (Some quiet_progress) = Some (r, ev)"
    and o: "\<forall>rows. r = Inr rows \<longrightarrow> observed accepting_db ev =
        concat (map (chunk_marks (replicate 250 sample_document) 100 (Some quiet_progress))
          [0..<chunk_count (length (replicate 250 sample_document)) 100])"
    and p: "\<forall>rows. r = Inr rows \<longrightarrow> progress_args ev =
        map (\<lambda>j. (min ((j + 1) * 100) (length (replicate 250 sample_document)),
                   length (replicate 250 sample_document)))
          [0..<chunk_count (length (replicate 250 sample_document)) 100]"
    by auto
  have "\<exists>rows. r = Inr rows"
  proof -
    from run obtain y where
      "insertBatch_loop accepting_db (replicate 250 sample_document) 100 (Some quiet_progress)
         \<lparr>index = 0, results = [], completed = 0, calls = 0, events = []\<rparr> = Some y"
      and "r = (case fst y of Inl e \<Rightarrow> Inl (batch_rethrow e) | Inr rows \<Rightarrow> Inr rows)"
      by (auto simp: insertBatch_def split: option.splits prod.splits sum.splits)
    with insertBatch_loop_accepting [OF this(1)] show ?thesis by auto
  qed
  then obtain rows where r: "r = Inr rows" by blast
  have cc: "chunk_count 250 100 = 3" by (simp add: chunk_count_def)
  have "progress_args ev = [(100, 250), (200, 250), (250, 250)]"
    using p r by (simp add: cc upt_0_3)
  moreover have "observed accepting_db ev =
         [Inserted (replicate 100 (insert_payload sample_document)), Reported 100 250,
          Inserted (replicate 100 (insert_payload sample_document)), Reported 200 250,
          Inserted (replicate 50 (insert_payload sample_document)), Reported 250 250]"
    using o r by (simp add: cc upt_0_3 chunk_marks_def chunk_def)
  ultimately show ?thesis using run r by blast
qed


section \<open>Properties of the weighted search function\<close>

lemma section_similarity_eval:
  assumes "params q = nullable SVector qv" and "row e = nullable SVector ev"
  shows "sql_eval cosine contains row params (section_similarity q e) = slot_similarity cosine qv ev"
  using assms
  by (simp add: section_similarity_def both_present_def nullable_def slot_similarity_def
      split: option.splits)

lemma section_term_eval:
  assumes "params q = nullable SVector qv" and "row e = nullable SVector ev"
    and "params w = SFloat wv"
  shows "sql_eval cosine contains row params (section_term q e w) =
     SFloat (slot_contribution cosine qv ev wv)"
  using assms
  by (simp add: section_term_def both_present_def nullable_def slot_contribution_def
      split: option.splits)

lemma main_similarity_eval:
  "sql_eval cosine contains (row_values r) (arg_values a) main_similarity =
     slot_similarity cosine (arg_query_embedding a) (row_embedding r)"
  by (simp add: main_similarity_def row_values_def arg_values_def nullable_def slot_similarity_def
      split: option.splits)

lemma main_term_eval:
  assumes "arg_weight_main a = Some w"
  shows "sql_eval cosine contains (row_values r) (arg_values a)
       (EMul (ECoalesce main_similarity (ENum 0)) (EParam ''weight_main'')) =
     SFloat (slot_contribution cosine (arg_query_embedding a) (row_embedding r) w)"
proof -
  have w: "arg_values a ''weight_main'' = SFloat w"
    using assms by (simp add: arg_values_def nullable_def)
  show ?thesis
    by (simp add: main_similarity_eval w del: sql_eval.simps(3))
       (simp add: slot_similarity_def slot_contribution_def split: option.splits)
qed

text \<open>
  The select list of the query is the scoring contract: the aggregate is the sum of the
  four slot contributions, and the similarity of a slot is NULL when the query vector or
  the document's embedding is absent.
\<close>

lemma weighted_similarity_eval:
  assumes "arg_weight_main a = Some w0" and "arg_weight_section_1 a = Some w1"
    and "arg_weight_section_2 a = Some w2" and "arg_weight_section_3 a = Some w3"
  shows "sql_eval cosine contains (row_values r) (arg_values a) weighted_similarity =
     SFloat (slot_contribution cosine (arg_query_embedding a) (row_embedding r) w0
           + slot_contribution cosine (arg_query_section_1 a) (row_embedding_section_1 r) w1
           + slot_contribution cosine (arg_query_section_2 a) (row_embedding_section_2 r) w2
           + slot_contribution cosine (arg_query_section_3 a) (row_embedding_section_3 r) w3)"
proof -
  have s1: "sql_eval cosine contains (row_values r) (arg_values a)
      (section_term ''query_section_1'' ''embedding_section_1'' ''weight_section_1'') =
      SFloat (slot_contribution cosine (arg_query_section_1 a) (row_embedding_section_1 r) w1)"
    by (rule section_term_eval) (simp_all add: arg_values_def row_values_def assms nullable_def)
  have s2: "sql_eval cosine contains (row_values r) (arg_values a)
      (section_term ''query_section_2'' ''embedding_section_2'' ''weight_section_2'') =
      SFloat (slot_contribution cosine (arg_query_section_2 a) (row_embedding_section_2 r) w2)"
    by (rule section_term_eval) (simp_all add: arg_values_def row_values_def assms nullable_def)
  have s3: "sql_eval cosine contains (row_values r) (arg_values a)
      (section_term ''query_section_3'' ''embedding_section_3'' ''weight_section_3'') =
      SFloat (slot_contribution cosine (arg_query_section_3 a) (row_embedding_section_3 r) w3)"
    by (rule section_term_eval) (simp_all add: arg_values_def row_values_def assms nullable_def)
  show ?thesis
    unfolding weighted_similarity_def sql_eval.simps(6) main_term_eval [OF assms(1)] s1 s2 s3
    by simp
qed

lemma section_similarities_eval:
  "sql_eval cosine contains (row_values r) (arg_values a)
       (section_similarity ''query_section_1'' ''embedding_section_1'') =
     slot_similarity cosine (arg_query_section_1 a) (row_embedding_section_1 r)"
  "sql_eval cosine contains (row_values r) (arg_values a)
       (section_similarity ''query_section_2'' ''embedding_section_2'') =
     slot_similarity cosine (arg_query_section_2 a) (row_embedding_section_2 r)"
  "sql_eval cosine contains (row_values r) (arg_values a)
       (section_similarity ''query_section_3'' ''embedding_section_3'') =
     slot_similarity cosine (arg_query_section_3 a) (row_embedding_section_3 r)"
  by (rule section_similarity_eval; simp add: arg_values_def row_values_def)+

lemma check_rejects: "check_grouping weighted_search_query = Some (SqlError ''42803'' ''documents.id'')"
  by (simp add: check_grouping_def is_grouped_query_def grouping_violations_def
      grouped_expressions_def weighted_search_query_def)

text \<open>
  Claim C1 describes the rows that a weighted search returns. The query of
  \<^verbatim>\<open>match_documents_weighted\<close> filters on the aggregate in a \<^verbatim>\<open>HAVING\<close> clause
  without \<^verbatim>\<open>GROUP BY\<close>, while its select list names the columns of the table outside
  any aggregate. PostgreSQL rejects such a query with SQLSTATE 42803 on the first of these
  columns, so every call of the function ends in this error and returns no rows,
  whatever the documents and the arguments are.
\<close>

theorem match_documents_weighted_rejected:
  "match_documents_weighted cosine contains documents params =
     Inl (SqlError ''42803'' ''documents.id'')"
  by (simp add: match_documents_weighted_def check_rejects)

theorem match_documents_weighted_rejected_witness:
  "match_documents_weighted zero_distance any_containment [row_values one_document]
     (arg_values main_only_call) = Inl (SqlError ''42803'' ''documents.id'')"
  using match_documents_weighted_rejected
    [of zero_distance any_containment "[row_values one_document]" "arg_values main_only_call"]
  by simp

end
